theory Spec2Isabelle
  imports Complex_Main "HOL-Library.Multiset" "HOL-Library.Log_Nat"
    "HOL-Library.Product_Lexorder"
begin

section \<open>Smart Shop data store (dataStore.js): a shallow embedding\<close>

text \<open>
  The development follows \<^verbatim>\<open>dataStore.js\<close> function by function.

  Conventions of the embedding.
  \<^item> A JavaScript string is a \<open>string\<close>; a \<open>char\<close> is read as one code unit in the
    range U+0000..U+00FF. Strings with code units above U+00FF are outside the model.
  \<^item> A JavaScript number is a \<open>jsnum\<close>: \<open>NaN\<close>, the two infinities, or a finite double,
    kept as the rational number it denotes. Every arithmetic operation rounds its exact
    result to the nearest double, ties to even, as IEEE 754 binary64 does
    (\<open>round_double\<close>). The sign of zero is not modelled: the module never divides by a
    computed zero and prints no number through a channel that tells the zeros apart.
  \<^item> An exception is a value \<open>Inl e\<close> of a sum type.
  \<^item> A CSV row is a record with one string per column of the documented header.
\<close>

subsection \<open>Errors\<close>

datatype error = TypeError | ReadError | RangeError

subsection \<open>Numbers\<close>

datatype jsnum = NaN | PosInf | NegInf | Fin rat

text \<open>
  Rounding to binary64. A positive real \<open>a\<close> lies in the binade \<open>2^e \<le> a < 2^(e+1)\<close> with
  \<open>e = binade a\<close>; the doubles of that binade are the multiples of \<open>2^(e-52)\<close>, and
  below \<open>2^-1022\<close> (the subnormal range) the multiples of \<open>2^-1074\<close>. The nearest
  multiple is taken, the one with the even significand on a tie; a result of \<open>2^1024\<close> or
  more is an infinity.
\<close>

definition pow2 :: "int \<Rightarrow> rat" where
  "pow2 e = (if 0 \<le> e then 2 ^ nat e else 1 / 2 ^ nat (- e))"

definition round_half_even :: "rat \<Rightarrow> int" where
  "round_half_even x =
     (let f = \<lfloor>x\<rfloor>; d = x - of_int f in
        if d < 1 / 2 then f else if 1 / 2 < d then f + 1 else if even f then f else f + 1)"

text \<open>For \<open>0 < a\<close>, the integer \<open>e\<close> with \<open>2^e \<le> a < 2^(e+1)\<close>.\<close>

definition binade :: "rat \<Rightarrow> int" where
  "binade a =
     (if 1 \<le> a then bitlen \<lfloor>a\<rfloor> - 1
      else (let k = bitlen \<lfloor>1 / a\<rfloor> - 1 in if pow2 (- k) \<le> a then - k else - k - 1))"

text \<open>The double nearest to a positive real, \<open>None\<close> when that is beyond the largest
  double.\<close>

definition round_magnitude :: "rat \<Rightarrow> rat option" where
  "round_magnitude a =
     (let e = max (binade a) (- 1022);
          ulp = pow2 (e - 52);
          n = round_half_even (a / ulp)
      in if 1024 \<le> e \<or> (e = 1023 \<and> n = 2 ^ 53) then None else Some (of_int n * ulp))"

definition round_double :: "rat \<Rightarrow> jsnum" where
  "round_double x =
     (if x = 0 then Fin 0
      else
        (case round_magnitude \<bar>x\<bar> of
           None \<Rightarrow> (if 0 < x then PosInf else NegInf)
         | Some r \<Rightarrow> Fin (sgn x * r)))"

fun js_lt :: "jsnum \<Rightarrow> jsnum \<Rightarrow> bool" where
  "js_lt (Fin a) (Fin b) = (a < b)"
| "js_lt (Fin a) PosInf = True"
| "js_lt NegInf (Fin b) = True"
| "js_lt NegInf PosInf = True"
| "js_lt _ _ = False"

definition js_gt :: "jsnum \<Rightarrow> jsnum \<Rightarrow> bool" where
  "js_gt a b = js_lt b a"

fun js_le :: "jsnum \<Rightarrow> jsnum \<Rightarrow> bool" where
  "js_le NaN _ = False"
| "js_le _ NaN = False"
| "js_le a b = (\<not> js_lt b a)"

definition js_ge :: "jsnum \<Rightarrow> jsnum \<Rightarrow> bool" where
  "js_ge a b = js_le b a"

fun js_neg :: "jsnum \<Rightarrow> jsnum" where
  "js_neg NaN = NaN"
| "js_neg PosInf = NegInf"
| "js_neg NegInf = PosInf"
| "js_neg (Fin a) = Fin (- a)"

fun js_add :: "jsnum \<Rightarrow> jsnum \<Rightarrow> jsnum" where
  "js_add (Fin a) (Fin b) = round_double (a + b)"
| "js_add NaN _ = NaN"
| "js_add _ NaN = NaN"
| "js_add PosInf NegInf = NaN"
| "js_add NegInf PosInf = NaN"
| "js_add PosInf _ = PosInf"
| "js_add NegInf _ = NegInf"
| "js_add (Fin a) b = b"

definition js_sub :: "jsnum \<Rightarrow> jsnum \<Rightarrow> jsnum" where
  "js_sub a b = js_add a (js_neg b)"

text \<open>The sign of a number that is not \<open>NaN\<close>: \<open>-1\<close>, \<open>0\<close> or \<open>1\<close>.\<close>

fun js_sign :: "jsnum \<Rightarrow> rat" where
  "js_sign (Fin a) = sgn a"
| "js_sign PosInf = 1"
| "js_sign NegInf = - 1"
| "js_sign NaN = 0"

definition js_inf_of_sign :: "rat \<Rightarrow> jsnum" where
  "js_inf_of_sign s = (if s = 0 then NaN else if 0 < s then PosInf else NegInf)"

fun js_mul :: "jsnum \<Rightarrow> jsnum \<Rightarrow> jsnum" where
  "js_mul (Fin a) (Fin b) = round_double (a * b)"
| "js_mul NaN _ = NaN"
| "js_mul _ NaN = NaN"
| "js_mul a b = js_inf_of_sign (js_sign a * js_sign b)"

fun js_div :: "jsnum \<Rightarrow> jsnum \<Rightarrow> jsnum" where
  "js_div (Fin a) (Fin b) = (if b = 0 then js_inf_of_sign (sgn a) else round_double (a / b))"
| "js_div (Fin a) PosInf = Fin 0"
| "js_div (Fin a) NegInf = Fin 0"
| "js_div PosInf (Fin b) = (if b < 0 then NegInf else PosInf)"
| "js_div NegInf (Fin b) = (if b < 0 then PosInf else NegInf)"
| "js_div _ _ = NaN"

fun js_abs :: "jsnum \<Rightarrow> jsnum" where
  "js_abs NaN = NaN"
| "js_abs (Fin a) = Fin \<bar>a\<bar>"
| "js_abs _ = PosInf"

text \<open>\<^verbatim>\<open>Math.min(a, b)\<close> and \<^verbatim>\<open>Math.max(a, b)\<close>: \<open>NaN\<close> when an argument is.\<close>

fun js_min :: "jsnum \<Rightarrow> jsnum \<Rightarrow> jsnum" where
  "js_min NaN _ = NaN"
| "js_min _ NaN = NaN"
| "js_min a b = (if js_lt b a then b else a)"

fun js_max :: "jsnum \<Rightarrow> jsnum \<Rightarrow> jsnum" where
  "js_max NaN _ = NaN"
| "js_max _ NaN = NaN"
| "js_max a b = (if js_lt a b then b else a)"

text \<open>\<^verbatim>\<open>Math.min(...xs)\<close> and \<^verbatim>\<open>Math.max(...xs)\<close> start from the infinities.\<close>

definition js_min_list :: "jsnum list \<Rightarrow> jsnum" where
  "js_min_list xs = fold (\<lambda>x acc. js_min acc x) xs PosInf"

definition js_max_list :: "jsnum list \<Rightarrow> jsnum" where
  "js_max_list xs = fold (\<lambda>x acc. js_max acc x) xs NegInf"

text \<open>Truthiness of a number: \<open>NaN\<close> and zero are falsy. \<^verbatim>\<open>x || 0\<close> on a number.\<close>

fun js_truthy :: "jsnum \<Rightarrow> bool" where
  "js_truthy NaN = False"
| "js_truthy (Fin a) = (a \<noteq> 0)"
| "js_truthy _ = True"

definition js_or_zero :: "jsnum \<Rightarrow> jsnum" where
  "js_or_zero x = (if js_truthy x then x else Fin 0)"

text \<open>A count (an array length, a number of hits or of occurrences) as a number. Every
  count of the module is bounded by the number of array elements that the program has
  visited, which is far below \<open>2^53\<close>, so it is a double.\<close>

definition js_of_nat :: "nat \<Rightarrow> jsnum" where
  "js_of_nat n = Fin (of_nat n)"

text \<open>
  \<^verbatim>\<open>Number(x.toFixed(2))\<close>. \<^verbatim>\<open>toFixed\<close> prints \<open>NaN\<close>, the infinities and every
  value of magnitude \<open>10^21\<close> or more as \<^verbatim>\<open>String(x)\<close>, which \<^verbatim>\<open>Number\<close> reads back
  unchanged; below that it prints \<open>n / 100\<close> for the integer \<open>n\<close> nearest to \<open>100 * |x|\<close>,
  the larger one on a tie, with the sign of \<open>x\<close>, where \<open>x\<close> is the exact value of the
  double; \<^verbatim>\<open>Number\<close> then reads the decimal back as the double nearest to it. The double
  written 1.005 lies below the tie and gives 1, the double 0.125 is the tie and gives
  the double nearest to 0.13.
\<close>

definition toFixed2 :: "jsnum \<Rightarrow> jsnum" where
  "toFixed2 x =
     (case x of
        Fin a \<Rightarrow>
          (if 10 ^ 21 \<le> \<bar>a\<bar> then Fin a
           else round_double (sgn a * of_int \<lfloor>100 * \<bar>a\<bar> + 1 / 2\<rfloor> / 100))
      | _ \<Rightarrow> x)"

subsection \<open>Strings\<close>

text \<open>Code units of \<^verbatim>\<open>\s\<close> below U+0100: TAB, LF, VT, FF, CR, SP and NBSP.\<close>

definition is_space :: "char \<Rightarrow> bool" where
  "is_space c = (of_char c \<in> {9, 10, 11, 12, 13, 32, 160 :: nat})"

definition is_lower_alnum :: "char \<Rightarrow> bool" where
  "is_lower_alnum c =
     (let n = of_char c :: nat in (97 \<le> n \<and> n \<le> 122) \<or> (48 \<le> n \<and> n \<le> 57))"

text \<open>\<^verbatim>\<open>toLowerCase\<close> on code units below U+0100: A-Z and the accented capitals.\<close>

definition lower_char :: "char \<Rightarrow> char" where
  "lower_char c =
     (let n = of_char c :: nat in
        if (65 \<le> n \<and> n \<le> 90) \<or> (192 \<le> n \<and> n \<le> 222 \<and> n \<noteq> 215)
        then char_of (n + 32) else c)"

definition toLowerCase :: "string \<Rightarrow> string" where
  "toLowerCase s = map lower_char s"

text \<open>\<^verbatim>\<open>s.split(/\s+/)\<close>: the pieces between maximal runs of white space. A run at
  either end leaves an empty piece there, and the empty string gives one empty piece.\<close>

fun split_ws_from :: "string \<Rightarrow> bool \<Rightarrow> string \<Rightarrow> string list" where
  "split_ws_from cur in_run [] = [rev cur]"
| "split_ws_from cur in_run (c # cs) =
     (if is_space c then
        (if in_run then split_ws_from cur True cs
         else rev cur # split_ws_from [] True cs)
      else split_ws_from (c # cur) False cs)"

definition split_ws :: "string \<Rightarrow> string list" where
  "split_ws s = split_ws_from [] False s"

text \<open>\<^verbatim>\<open>haystack.includes(token)\<close>: the token occurs as a contiguous substring.\<close>

fun starts_with :: "string \<Rightarrow> string \<Rightarrow> bool" where
  "starts_with s [] = True"
| "starts_with [] (t # ts) = False"
| "starts_with (c # cs) (t # ts) = (c = t \<and> starts_with cs ts)"

fun includes_str :: "string \<Rightarrow> string \<Rightarrow> bool" where
  "includes_str [] t = (t = [])"
| "includes_str (c # cs) t = (starts_with (c # cs) t \<or> includes_str cs t)"

subsection \<open>Text normalizer\<close>

definition STOPWORDS :: "string list" where
  "STOPWORDS =
     [''the'', ''and'', ''a'', ''an'', ''is'', ''it'', ''this'', ''that'', ''to'', ''of'',
      ''for'', ''in'', ''on'', ''with'', ''very'', ''really'', ''my'', ''our'', ''your'',
      ''all'', ''at'', ''as'', ''was'', ''were'', ''be'', ''are'', ''but'', ''so'', ''if'',
      ''by'', ''from'', ''has'', ''have'', ''had'', ''its'', ''i'', ''me'', ''we'', ''you'',
      ''they'']"

definition SENTIMENT_positive :: "string list" where
  "SENTIMENT_positive =
     [''great'', ''excellent'', ''amazing'', ''love'', ''fast'', ''snappy'', ''beautiful'',
      ''clear'', ''crystal'', ''smooth'', ''awesome'', ''perfect'', ''good'', ''durable'',
      ''battery'', ''bright'']"

definition SENTIMENT_negative :: "string list" where
  "SENTIMENT_negative =
     [''bad'', ''poor'', ''slow'', ''broken'', ''cracked'', ''damage'', ''overheats'', ''lag'',
      ''laggy'', ''heavy'', ''dim'', ''terrible'', ''awful'', ''disappoint'', ''noisy'']"

text \<open>
  \<^verbatim>\<open>normalizeText\<close> and \<^verbatim>\<open>tokenize\<close> on a string. Both functions of the source take
  whatever the caller passes; \<open>normalizeText_call\<close> and \<open>tokenize_call\<close> below are the
  calls with an argument that is any value.
\<close>

definition normalizeText :: "string \<Rightarrow> string" where
  "normalizeText s =
     map (\<lambda>c. if is_lower_alnum c \<or> is_space c then c else CHR '' '') (toLowerCase s)"

definition tokenize :: "string \<Rightarrow> string list" where
  "tokenize s = filter (\<lambda>token. token \<noteq> [] \<and> token \<notin> set STOPWORDS) (split_ws (normalizeText s))"

text \<open>
  A value as a caller can pass it: \<^verbatim>\<open>undefined\<close>, or what JSON and a parsed query
  string can hold.
\<close>

datatype js_value =
    V_undefined
  | V_null
  | V_boolean bool
  | V_number jsnum
  | V_string string
  | V_array "js_value list"
  | V_object "(string \<times> js_value) list"

text \<open>
  \<^verbatim>\<open>text.toLowerCase()\<close>: of these values only a string has the method. Reading the
  property off \<^verbatim>\<open>undefined\<close> or \<^verbatim>\<open>null\<close> throws a TypeError, and so does calling
  what is not a function: the \<^verbatim>\<open>undefined\<close> that a boolean, a number, an array or an
  object gives for the name, or the value that an object holds under it.
\<close>

definition normalizeText_call :: "js_value \<Rightarrow> error + string" where
  "normalizeText_call arg =
     (case arg of V_string s \<Rightarrow> Inr (normalizeText s) | _ \<Rightarrow> Inl TypeError)"

definition tokenize_call :: "js_value \<Rightarrow> error + string list" where
  "tokenize_call arg =
     (case normalizeText_call arg of
        Inl e \<Rightarrow> Inl e
      | Inr s \<Rightarrow> Inr (filter (\<lambda>token. token \<noteq> [] \<and> token \<notin> set STOPWORDS) (split_ws s)))"

subsection \<open>Sentiment scorer\<close>

definition scoreSentiment :: "string \<Rightarrow> int" where
  "scoreSentiment s =
     fold (\<lambda>token score.
             (let score1 = (if token \<in> set SENTIMENT_positive then score + 1 else score)
              in if token \<in> set SENTIMENT_negative then score1 - 1 else score1))
          (tokenize s) 0"

subsection \<open>Array.prototype.sort\<close>

text \<open>
  \<^verbatim>\<open>xs.sort(cmp)\<close> is a stable sort: for a comparator that is consistent (a total
  preorder) ECMAScript fixes the result, which is the one insertion sort gives. A
  comparator result that is \<open>NaN\<close> counts as zero. Where the comparator is not consistent
  (a key that is \<open>NaN\<close> among others that differ) the language leaves the order to the
  engine; the model then follows insertion sort, and no property below speaks of the
  order in that case.
\<close>

fun js_insert :: "('a \<Rightarrow> 'a \<Rightarrow> jsnum) \<Rightarrow> 'a \<Rightarrow> 'a list \<Rightarrow> 'a list" where
  "js_insert cmp x [] = [x]"
| "js_insert cmp x (y # ys) =
     (if js_gt (cmp x y) (Fin 0) then y # js_insert cmp x ys else x # y # ys)"

definition js_sort :: "('a \<Rightarrow> 'a \<Rightarrow> jsnum) \<Rightarrow> 'a list \<Rightarrow> 'a list" where
  "js_sort cmp xs = foldr (js_insert cmp) xs []"

subsection \<open>Data model\<close>

record product =
  p_id :: string
  p_name :: string
  p_brand :: string
  p_category :: string
  p_price :: jsnum
  p_description :: string
  p_stock :: jsnum
  p_rating :: jsnum

record review =
  r_product_id :: string
  r_rating :: jsnum
  r_text :: string
  r_date :: string

record policy =
  pol_policy_type :: string
  pol_description :: string
  pol_conditions :: "string list"
  pol_timeframe :: jsnum

record sentiment =
  positive :: nat
  neutral :: nat
  negative :: nat

record summary =
  average_rating :: jsnum
  total_reviews :: nat
  sentiment_counts :: sentiment
  themes :: "(string \<times> nat) list"

subsection \<open>Review summarizer\<close>

text \<open>\<^verbatim>\<open>wordCounts.set(token, (wordCounts.get(token) || 0) + 1)\<close> on a Map, whose
  entries keep the order in which their keys were first set.\<close>

fun count_token :: "string \<Rightarrow> (string \<times> nat) list \<Rightarrow> (string \<times> nat) list" where
  "count_token token [] = [(token, 1)]"
| "count_token token ((w, c) # m) =
     (if w = token then (w, c + 1) # m else (w, c) # count_token token m)"

record summarize_acc =
  acc_total :: jsnum
  acc_positive :: nat
  acc_negative :: nat
  acc_neutral :: nat
  acc_wordCounts :: "(string \<times> nat) list"

text \<open>One pass of the loop over the reviews. The text of a review is a string, so
  \<^verbatim>\<open>review.text || ""\<close> is the text itself.\<close>

definition summarize_step :: "review \<Rightarrow> summarize_acc \<Rightarrow> summarize_acc" where
  "summarize_step r acc =
     (let total = js_add (acc_total acc) (js_or_zero (r_rating r));
          sentimentScore = scoreSentiment (r_text r);
          acc1 = acc\<lparr>acc_total := total\<rparr>;
          acc2 =
            (if js_ge (r_rating r) (Fin 4) \<or> sentimentScore > 0
             then acc1\<lparr>acc_positive := acc_positive acc1 + 1\<rparr>
             else if js_le (r_rating r) (Fin 2) \<or> sentimentScore < 0
             then acc1\<lparr>acc_negative := acc_negative acc1 + 1\<rparr>
             else acc1\<lparr>acc_neutral := acc_neutral acc1 + 1\<rparr>)
      in acc2\<lparr>acc_wordCounts := fold count_token (tokenize (r_text r)) (acc_wordCounts acc2)\<rparr>)"

definition summarize_init :: summarize_acc where
  "summarize_init =
     \<lparr>acc_total = Fin 0, acc_positive = 0, acc_negative = 0, acc_neutral = 0,
      acc_wordCounts = []\<rparr>"

definition count_desc :: "(string \<times> nat) \<Rightarrow> (string \<times> nat) \<Rightarrow> jsnum" where
  "count_desc a b = js_sub (js_of_nat (snd b)) (js_of_nat (snd a))"

definition summarizeReviews :: "review list \<Rightarrow> summary" where
  "summarizeReviews reviews =
     (if length reviews = 0 then
        \<lparr>average_rating = Fin 0, total_reviews = 0,
         sentiment_counts = \<lparr>positive = 0, neutral = 0, negative = 0\<rparr>, themes = []\<rparr>
      else
        (let acc = fold summarize_step reviews summarize_init
         in \<lparr>average_rating =
                toFixed2 (js_div (acc_total acc) (js_of_nat (length reviews))),
              total_reviews = length reviews,
              sentiment_counts =
                \<lparr>positive = acc_positive acc, neutral = acc_neutral acc,
                 negative = acc_negative acc\<rparr>,
              themes = take 5 (js_sort count_desc (acc_wordCounts acc))\<rparr>))"

subsection \<open>Number(string)\<close>

text \<open>
  \<^verbatim>\<open>Number(s)\<close> on a string, after ECMAScript's StringToNumber: white space is trimmed;
  the empty string is \<open>0\<close>; \<^verbatim>\<open>0x\<close>, \<^verbatim>\<open>0o\<close> and \<^verbatim>\<open>0b\<close> prefix unsigned
  integers; a decimal literal has an optional sign, digits with an optional fraction, an
  optional exponent, or is \<^verbatim>\<open>Infinity\<close>; every other string is \<open>NaN\<close>. The value of
  the literal is rounded to the nearest double.
\<close>

definition is_digit :: "char \<Rightarrow> bool" where
  "is_digit c = (let n = of_char c :: nat in 48 \<le> n \<and> n \<le> 57)"

definition digit_of :: "nat \<Rightarrow> char \<Rightarrow> nat option" where
  "digit_of base c =
     (let n = of_char c :: nat;
          d = (if 48 \<le> n \<and> n \<le> 57 then n - 48
               else if 97 \<le> n \<and> n \<le> 102 then n - 87
               else if 65 \<le> n \<and> n \<le> 70 then n - 55
               else 16)
      in if d < base then Some d else None)"

fun digits_value :: "nat \<Rightarrow> nat \<Rightarrow> string \<Rightarrow> nat option" where
  "digits_value base acc [] = Some acc"
| "digits_value base acc (c # cs) =
     (case digit_of base c of
        None \<Rightarrow> None
      | Some d \<Rightarrow> digits_value base (acc * base + d) cs)"

definition number_in_base :: "nat \<Rightarrow> string \<Rightarrow> nat option" where
  "number_in_base base s = (if s = [] then None else digits_value base 0 s)"

text \<open>The value of a run of decimal digits (\<open>0\<close> for the empty run).\<close>

definition decimal_value :: "string \<Rightarrow> nat" where
  "decimal_value s = fold (\<lambda>c acc. acc * 10 + (of_char c - 48)) s 0"

definition scale10 :: "rat \<Rightarrow> int \<Rightarrow> rat" where
  "scale10 m e = (if 0 \<le> e then m * 10 ^ nat e else m / 10 ^ nat (- e))"

definition parse_exponent :: "string \<Rightarrow> int option" where
  "parse_exponent s =
     (case s of
        [] \<Rightarrow> Some 0
      | c # t \<Rightarrow>
          (if c = CHR ''e'' \<or> c = CHR ''E'' then
             (case t of
                [] \<Rightarrow> None
              | d # u \<Rightarrow>
                  (if d = CHR ''+'' then map_option int (number_in_base 10 u)
                   else if d = CHR ''-'' then map_option (\<lambda>n. - int n) (number_in_base 10 u)
                   else map_option int (number_in_base 10 t)))
           else None))"

definition parse_unsigned_decimal :: "string \<Rightarrow> jsnum option" where
  "parse_unsigned_decimal s =
     (if s = ''Infinity'' then Some PosInf
      else
        (let ip = takeWhile is_digit s;
             r1 = dropWhile is_digit s;
             fp = (case r1 of [] \<Rightarrow> [] | c # t \<Rightarrow> if c = CHR ''.'' then takeWhile is_digit t else []);
             r2 = (case r1 of [] \<Rightarrow> [] | c # t \<Rightarrow> if c = CHR ''.'' then dropWhile is_digit t else r1)
         in if ip = [] \<and> fp = [] then None
            else
              (case parse_exponent r2 of
                 None \<Rightarrow> None
               | Some e \<Rightarrow>
                   Some (round_double (scale10
                     (of_nat (decimal_value ip)
                      + of_nat (decimal_value fp) / 10 ^ length fp) e)))))"

definition parse_non_decimal :: "string \<Rightarrow> jsnum option" where
  "parse_non_decimal s =
     (case s of
        z # x # t \<Rightarrow>
          (if z \<noteq> CHR ''0'' then None
           else if x = CHR ''x'' \<or> x = CHR ''X''
           then map_option (\<lambda>n. round_double (of_nat n)) (number_in_base 16 t)
           else if x = CHR ''o'' \<or> x = CHR ''O''
           then map_option (\<lambda>n. round_double (of_nat n)) (number_in_base 8 t)
           else if x = CHR ''b'' \<or> x = CHR ''B''
           then map_option (\<lambda>n. round_double (of_nat n)) (number_in_base 2 t)
           else None)
      | _ \<Rightarrow> None)"

definition trim :: "string \<Rightarrow> string" where
  "trim s = rev (dropWhile is_space (rev (dropWhile is_space s)))"

definition Number_str :: "string \<Rightarrow> jsnum" where
  "Number_str s =
     (let t = trim s in
        if t = [] then Fin 0
        else
          (case parse_non_decimal t of
             Some v \<Rightarrow> v
           | None \<Rightarrow>
               (case (case t of
                        [] \<Rightarrow> None
                      | c # u \<Rightarrow>
                          (if c = CHR ''+'' then parse_unsigned_decimal u
                           else if c = CHR ''-'' then map_option js_neg (parse_unsigned_decimal u)
                           else parse_unsigned_decimal t)) of
                  Some v \<Rightarrow> v
                | None \<Rightarrow> NaN)))"

subsection \<open>Source rows and files\<close>

record product_row =
  row_id :: string
  row_name :: string
  row_brand :: string
  row_category :: string
  row_price :: string
  row_description :: string
  row_stock :: string
  row_rating :: string

record review_row =
  row_product_id :: string
  row_review_rating :: string
  row_text :: string
  row_date :: string

record policy_row =
  row_policy_type :: string
  row_policy_description :: string
  row_conditions :: string
  row_timeframe :: string

text \<open>
  A source file as the store sees it: its modification time (\<^verbatim>\<open>statSync(p).mtimeMs\<close>)
  and what \<^verbatim>\<open>loadCsv\<close> makes of it, the rows or the exception that
  \<^verbatim>\<open>readFileSync\<close> or the CSV parser (an external library) throws. A file that does
  not exist is \<open>None\<close>.
\<close>

record 'r csv_file =
  mtimeMs :: rat
  csv_rows :: "error + 'r list"

record filesystem =
  products_csv :: "product_row csv_file option"
  reviews_csv :: "review_row csv_file option"
  policies_csv :: "policy_row csv_file option"

definition loadCsv :: "'r csv_file option \<Rightarrow> error + 'r list" where
  "loadCsv f = (case f of None \<Rightarrow> Inl ReadError | Some c \<Rightarrow> csv_rows c)"

text \<open>\<^verbatim>\<open>s.split("|")\<close>.\<close>

fun split_bar_from :: "string \<Rightarrow> string \<Rightarrow> string list" where
  "split_bar_from cur [] = [rev cur]"
| "split_bar_from cur (c # cs) =
     (if c = CHR ''|'' then rev cur # split_bar_from [] cs else split_bar_from (c # cur) cs)"

definition parsePolicies :: "policy_row list \<Rightarrow> policy list" where
  "parsePolicies rows =
     map (\<lambda>row.
            \<lparr>pol_policy_type = row_policy_type row,
             pol_description = row_policy_description row,
             pol_conditions =
               (if row_conditions row \<noteq> [] then split_bar_from [] (row_conditions row) else []),
             pol_timeframe = Number_str (row_timeframe row)\<rparr>) rows"

definition product_of_row :: "product_row \<Rightarrow> product" where
  "product_of_row row =
     \<lparr>p_id = row_id row, p_name = row_name row, p_brand = row_brand row,
      p_category = row_category row, p_price = Number_str (row_price row),
      p_description = row_description row, p_stock = Number_str (row_stock row),
      p_rating = Number_str (row_rating row)\<rparr>"

definition review_of_row :: "review_row \<Rightarrow> review" where
  "review_of_row row =
     \<lparr>r_product_id = row_product_id row, r_rating = Number_str (row_review_rating row),
      r_text = row_text row, r_date = row_date row\<rparr>"

subsection \<open>Catalog cache\<close>

record cache =
  products :: "product list"
  productById :: "string \<rightharpoonup> product"
  reviews :: "review list"
  reviewsByProduct :: "string \<rightharpoonup> review list"
  policies :: "policy list"

record store =
  cache :: "cache option"
  lastLoaded :: int
  lastModified :: rat

definition store_init :: store where
  "store_init = \<lparr>cache = None, lastLoaded = 0, lastModified = 0\<rparr>"

text \<open>\<^verbatim>\<open>new Map(products.map((product) => [product.id, product]))\<close>: a later entry
  replaces an earlier one with the same key.\<close>

definition index_products :: "product list \<Rightarrow> (string \<rightharpoonup> product)" where
  "index_products ps = fold (\<lambda>p m. m(p_id p \<mapsto> p)) ps Map.empty"

text \<open>The grouping loop: a key seen for the first time starts an empty group, and the
  review is pushed onto the group of its key.\<close>

definition group_step :: "review \<Rightarrow> (string \<rightharpoonup> review list) \<Rightarrow> (string \<rightharpoonup> review list)" where
  "group_step r m =
     m(r_product_id r \<mapsto>
         (case m (r_product_id r) of None \<Rightarrow> [] | Some rs0 \<Rightarrow> rs0) @ [r])"

definition group_reviews :: "review list \<Rightarrow> (string \<rightharpoonup> review list)" where
  "group_reviews rs = fold group_step rs Map.empty"

definition build_cache :: "product list \<Rightarrow> review list \<Rightarrow> policy list \<Rightarrow> cache" where
  "build_cache ps rs pols =
     \<lparr>products = ps, productById = index_products ps, reviews = rs,
      reviewsByProduct = group_reviews rs, policies = pols\<rparr>"

definition file_mtime :: "'r csv_file option \<Rightarrow> rat" where
  "file_mtime f = (case f of None \<Rightarrow> 0 | Some c \<Rightarrow> mtimeMs c)"

definition getLastModified :: "filesystem \<Rightarrow> rat" where
  "getLastModified fs =
     max (file_mtime (products_csv fs))
         (max (file_mtime (reviews_csv fs)) (file_mtime (policies_csv fs)))"

text \<open>\<^verbatim>\<open>load()\<close>. \<open>now\<close> is what \<^verbatim>\<open>Date.now()\<close> returns when the load has read its
  files. An exception leaves the store as it was.\<close>

definition load :: "int \<Rightarrow> filesystem \<Rightarrow> store \<Rightarrow> error + store" where
  "load now fs st =
     (case loadCsv (products_csv fs) of
        Inl e \<Rightarrow> Inl e
      | Inr prows \<Rightarrow>
          (case loadCsv (reviews_csv fs) of
             Inl e \<Rightarrow> Inl e
           | Inr rrows \<Rightarrow>
               (case loadCsv (policies_csv fs) of
                  Inl e \<Rightarrow> Inl e
                | Inr polrows \<Rightarrow>
                    Inr \<lparr>cache = Some (build_cache (map product_of_row prows)
                                         (map review_of_row rrows) (parsePolicies polrows)),
                         lastLoaded = now,
                         lastModified = getLastModified fs\<rparr>)))"

text \<open>\<^verbatim>\<open>ensureFresh()\<close>. \<open>now\<close> is the clock at entry, \<open>now_load\<close> the clock read by
  \<^verbatim>\<open>load()\<close> if it runs. The outcome records whether the files were looked at and
  whether \<^verbatim>\<open>load()\<close> was called.\<close>

record fresh_outcome =
  checked_files :: bool
  called_load :: bool
  outcome :: "error + store"

definition ensureFresh :: "int \<Rightarrow> int \<Rightarrow> filesystem \<Rightarrow> store \<Rightarrow> fresh_outcome" where
  "ensureFresh now now_load fs st =
     (if cache st = None \<or> now - lastLoaded st > 30000 then
        (let currentModified = getLastModified fs in
           if cache st = None \<or> currentModified > lastModified st
           then \<lparr>checked_files = True, called_load = True, outcome = load now_load fs st\<rparr>
           else \<lparr>checked_files = True, called_load = False, outcome = Inr st\<rparr>)
      else \<lparr>checked_files = False, called_load = False, outcome = Inr st\<rparr>)"

subsection \<open>Search and recommendation ranker\<close>

text \<open>The filters of \<^verbatim>\<open>getProducts\<close>: \<open>None\<close> is an absent (undefined or null) field.\<close>

record filters =
  f_category :: "string option"
  f_query :: "string option"
  f_minPrice :: "jsnum option"
  f_maxPrice :: "jsnum option"
  f_inStockOnly :: bool

definition getTextScore :: "product \<Rightarrow> string list \<Rightarrow> nat" where
  "getTextScore product queryTokens =
     (let haystack =
            toLowerCase (p_name product @ '' '' @ p_brand product @ '' '' @ p_category product
                         @ '' '' @ p_description product)
      in fold (\<lambda>token score. if includes_str haystack token then score + 2 else score)
           queryTokens 0)"

definition scoreRecommendation :: "product \<Rightarrow> product \<Rightarrow> jsnum" where
  "scoreRecommendation baseProduct candidate =
     (let priceDiff = js_abs (js_sub (p_price candidate) (p_price baseProduct));
          priceScore =
            js_sub (Fin 1)
              (js_min (js_div priceDiff (js_max (p_price baseProduct) (Fin 1))) (Fin 1));
          stockScore = (if js_gt (p_stock candidate) (Fin 0) then Fin 1 else Fin 0)
      in js_add (js_add (js_mul (js_or_zero (p_rating candidate)) (Fin 2)) priceScore)
           stockScore)"

record scored =
  item_product :: product
  item_score :: jsnum

definition score_desc :: "scored \<Rightarrow> scored \<Rightarrow> jsnum" where
  "score_desc a b = js_sub (item_score b) (item_score a)"

definition rating_desc :: "product \<Rightarrow> product \<Rightarrow> jsnum" where
  "rating_desc a b = js_sub (p_rating b) (p_rating a)"

definition price_asc :: "product \<Rightarrow> product \<Rightarrow> jsnum" where
  "price_asc a b = js_sub (p_price a) (p_price b)"

text \<open>The query functions below are the bodies that run on the cache once
  \<^verbatim>\<open>ensureFresh()\<close> has returned; the entry points that call it first come last.\<close>

definition getProducts :: "cache \<Rightarrow> filters \<Rightarrow> product list" where
  "getProducts c f =
     (let results0 = products c;
          results1 =
            (case f_category f of
               None \<Rightarrow> results0
             | Some category \<Rightarrow>
                 if category \<noteq> [] then filter (\<lambda>product. p_category product = category) results0
                 else results0);
          results2 =
            (case f_query f of
               None \<Rightarrow> results1
             | Some query \<Rightarrow>
                 if query \<noteq> [] then
                   (let tokens = tokenize query in
                      map item_product
                        (js_sort score_desc
                           (filter (\<lambda>item. js_gt (item_score item) (Fin 0))
                              (map (\<lambda>product.
                                      \<lparr>item_product = product,
                                       item_score = js_of_nat (getTextScore product tokens)\<rparr>)
                                 results1))))
                 else results1);
          results3 =
            (case f_minPrice f of
               None \<Rightarrow> results2
             | Some minPrice \<Rightarrow> filter (\<lambda>product. js_ge (p_price product) minPrice) results2);
          results4 =
            (case f_maxPrice f of
               None \<Rightarrow> results3
             | Some maxPrice \<Rightarrow> filter (\<lambda>product. js_le (p_price product) maxPrice) results3)
      in if f_inStockOnly f then filter (\<lambda>product. js_gt (p_stock product) (Fin 0)) results4
         else results4)"

definition getRecommendations :: "cache \<Rightarrow> string option \<Rightarrow> string option \<Rightarrow> product list" where
  "getRecommendations c productId query =
     (case (case productId of
              None \<Rightarrow> None
            | Some pid \<Rightarrow> if pid \<noteq> [] then map_option (Pair pid) (productById c pid) else None) of
        Some (pid, baseProduct) \<Rightarrow>
          map item_product
            (take 6
               (js_sort score_desc
                  (map (\<lambda>product.
                          \<lparr>item_product = product,
                           item_score = scoreRecommendation baseProduct product\<rparr>)
                     (filter (\<lambda>product. p_category product = p_category baseProduct
                                         \<and> p_id product \<noteq> pid)
                        (products c)))))
      | None \<Rightarrow>
          (case (case query of None \<Rightarrow> None | Some q \<Rightarrow> if q \<noteq> [] then Some q else None) of
             Some q \<Rightarrow>
               (let tokens = tokenize q in
                  map item_product
                    (take 6
                       (js_sort score_desc
                          (filter (\<lambda>item. js_gt (item_score item) (Fin 0))
                             (map (\<lambda>product.
                                     \<lparr>item_product = product,
                                      item_score =
                                        js_add (js_of_nat (getTextScore product tokens))
                                          (p_rating product)\<rparr>)
                                (products c))))))
           | None \<Rightarrow> take 6 (js_sort rating_desc (products c))))"

subsection \<open>Review summary, price comparison and policies\<close>

definition getReviewSummary :: "cache \<Rightarrow> string \<Rightarrow> summary" where
  "getReviewSummary c productId =
     summarizeReviews (case reviewsByProduct c productId of None \<Rightarrow> [] | Some rs \<Rightarrow> rs)"

text \<open>
  \<^verbatim>\<open>new Date(t).toISOString()\<close> denotes an instant in whole milliseconds: the time value
  is truncated, and a time value beyond 8.64e15 ms is an invalid date, for which
  \<^verbatim>\<open>toISOString\<close> throws a RangeError. The string itself is not modelled.
\<close>

definition toISOString_instant :: "rat \<Rightarrow> error + int" where
  "toISOString_instant t =
     (if \<bar>t\<bar> > 8640000000000000 then Inl RangeError
      else Inr (if 0 \<le> t then \<lfloor>t\<rfloor> else \<lceil>t\<rceil>))"

record comparison =
  pc_base :: product
  pc_min :: jsnum
  pc_max :: jsnum
  pc_avg :: jsnum
  pc_cheaper :: "product list"
  pc_updated_at :: int

definition getPriceComparison :: "store \<Rightarrow> cache \<Rightarrow> string \<Rightarrow> error + comparison option" where
  "getPriceComparison st c productId =
     (case productById c productId of
        None \<Rightarrow> Inr None
      | Some product \<Rightarrow>
          (let categoryProducts =
                 filter (\<lambda>p. p_category p = p_category product) (products c);
               prices = map p_price categoryProducts;
               minp = js_min_list prices;
               maxp = js_max_list prices;
               avg = js_div (fold (\<lambda>price sum. js_add sum price) prices (Fin 0))
                            (js_of_nat (length prices));
               cheaper =
                 take 5 (js_sort price_asc
                           (filter (\<lambda>p. js_lt (p_price p) (p_price product)) categoryProducts))
           in case toISOString_instant (lastModified st) of
                Inl e \<Rightarrow> Inl e
              | Inr updated \<Rightarrow>
                  Inr (Some \<lparr>pc_base = product, pc_min = toFixed2 minp, pc_max = toFixed2 maxp,
                             pc_avg = toFixed2 avg, pc_cheaper = cheaper,
                             pc_updated_at = updated\<rparr>)))"

text \<open>
  \<^verbatim>\<open>CATEGORY_POLICY_MAP[category]\<close> is a property read on an object literal: one of
  its four own strings, a member of \<^verbatim>\<open>Object.prototype\<close> (never a string) for the
  names that object inherits, and \<^verbatim>\<open>undefined\<close> otherwise.
\<close>

datatype property = Undefined | Str string | Inherited

definition object_prototype_keys :: "string list" where
  "object_prototype_keys =
     [''constructor'', ''__defineGetter__'', ''__defineSetter__'', ''hasOwnProperty'',
      ''__lookupGetter__'', ''__lookupSetter__'', ''isPrototypeOf'', ''propertyIsEnumerable'',
      ''toString'', ''valueOf'', ''__proto__'', ''toLocaleString'']"

definition CATEGORY_POLICY_MAP :: "string \<Rightarrow> property" where
  "CATEGORY_POLICY_MAP category =
     (if category = ''laptop'' then Str ''Laptop Return Policy''
      else if category = ''smartphone'' then Str ''Smartphone Return Policy''
      else if category = ''smart_tv'' then Str ''Smart TV Return Policy''
      else if category = ''speaker'' then Str ''Speaker Return Policy''
      else if category \<in> set object_prototype_keys then Inherited
      else Undefined)"

definition getPolicyByCategory :: "cache \<Rightarrow> string \<Rightarrow> policy option" where
  "getPolicyByCategory c category =
     (let policyName = CATEGORY_POLICY_MAP category
      in find (\<lambda>policy. Str (pol_description policy) = policyName) (policies c))"

definition getPolicyForProduct :: "cache \<Rightarrow> string \<Rightarrow> policy option" where
  "getPolicyForProduct c productId =
     (case productById c productId of
        None \<Rightarrow> None
      | Some product \<Rightarrow>
          (let policyName = CATEGORY_POLICY_MAP (p_category product)
           in find (\<lambda>policy. Str (pol_description policy) = policyName) (policies c)))"

definition getProductById :: "cache \<Rightarrow> string \<Rightarrow> product option" where
  "getProductById c productId = productById c productId"

subsection \<open>Entry points\<close>

text \<open>Every exported function calls \<^verbatim>\<open>ensureFresh()\<close> and then reads the cache; an
  exception of the load leaves through the caller.\<close>

definition with_fresh ::
  "int \<Rightarrow> int \<Rightarrow> filesystem \<Rightarrow> store \<Rightarrow> (store \<Rightarrow> cache \<Rightarrow> error + 'a) \<Rightarrow> (error + 'a) \<times> store" where
  "with_fresh now now_load fs st body =
     (case outcome (ensureFresh now now_load fs st) of
        Inl e \<Rightarrow> (Inl e, st)
      | Inr st' \<Rightarrow>
          (case cache st' of
             None \<Rightarrow> (Inl TypeError, st')
           | Some c \<Rightarrow> (body st' c, st')))"

definition api_getProducts ::
  "int \<Rightarrow> int \<Rightarrow> filesystem \<Rightarrow> filters \<Rightarrow> store \<Rightarrow> (error + product list) \<times> store" where
  "api_getProducts now now_load fs f st =
     with_fresh now now_load fs st (\<lambda>st' c. Inr (getProducts c f))"

definition api_getRecommendations ::
  "int \<Rightarrow> int \<Rightarrow> filesystem \<Rightarrow> string option \<Rightarrow> string option \<Rightarrow> store
     \<Rightarrow> (error + product list) \<times> store" where
  "api_getRecommendations now now_load fs productId query st =
     with_fresh now now_load fs st (\<lambda>st' c. Inr (getRecommendations c productId query))"

definition api_getReviewSummary ::
  "int \<Rightarrow> int \<Rightarrow> filesystem \<Rightarrow> string \<Rightarrow> store \<Rightarrow> (error + summary) \<times> store" where
  "api_getReviewSummary now now_load fs productId st =
     with_fresh now now_load fs st (\<lambda>st' c. Inr (getReviewSummary c productId))"

definition api_getPriceComparison ::
  "int \<Rightarrow> int \<Rightarrow> filesystem \<Rightarrow> string \<Rightarrow> store \<Rightarrow> (error + comparison option) \<times> store" where
  "api_getPriceComparison now now_load fs productId st =
     with_fresh now now_load fs st (\<lambda>st' c. getPriceComparison st' c productId)"

definition api_getPolicyForProduct ::
  "int \<Rightarrow> int \<Rightarrow> filesystem \<Rightarrow> string \<Rightarrow> store \<Rightarrow> (error + policy option) \<times> store" where
  "api_getPolicyForProduct now now_load fs productId st =
     with_fresh now now_load fs st (\<lambda>st' c. Inr (getPolicyForProduct c productId))"

definition api_getPolicyByCategory ::
  "int \<Rightarrow> int \<Rightarrow> filesystem \<Rightarrow> string \<Rightarrow> store \<Rightarrow> (error + policy option) \<times> store" where
  "api_getPolicyByCategory now now_load fs category st =
     with_fresh now now_load fs st (\<lambda>st' c. Inr (getPolicyByCategory c category))"

section \<open>Specification-level notions\<close>

text \<open>The definitions of this section follow the words of the specification; the theorems
  below compare them with the functions of the source. With them come the notions in which
  the theorems speak of doubles: the multiples of the least positive double, and the order
  of the numbers as a sort key.\<close>

text \<open>The finite doubles are multiples of the least positive double, \<open>2^-1074\<close>.\<close>

definition grid :: "rat \<Rightarrow> bool" where
  "grid x = (\<exists>k::int. x = of_int k * pow2 (- 1074))"

fun on_grid :: "jsnum \<Rightarrow> bool" where
  "on_grid (Fin a) = grid a"
| "on_grid _ = True"

text \<open>The order of the numbers other than \<open>NaN\<close> as a sort key: ascending, and
  descending.\<close>

fun js_rank :: "jsnum \<Rightarrow> int \<times> rat" where
  "js_rank NegInf = (- 1, 0)"
| "js_rank (Fin a) = (0, a)"
| "js_rank PosInf = (1, 0)"
| "js_rank NaN = (2, 0)"

fun js_rank_desc :: "jsnum \<Rightarrow> int \<times> rat" where
  "js_rank_desc PosInf = (- 1, 0)"
| "js_rank_desc (Fin a) = (0, - a)"
| "js_rank_desc NegInf = (1, 0)"
| "js_rank_desc NaN = (- 2, 0)"

text \<open>A number that is a finite value, and that value.\<close>

fun is_finite_num :: "jsnum \<Rightarrow> bool" where
  "is_finite_num (Fin a) = True"
| "is_finite_num _ = False"

fun num_val :: "jsnum \<Rightarrow> rat" where
  "num_val (Fin a) = a"
| "num_val _ = 0"

text \<open>Sentiment buckets: positive if rating \<open>\<ge> 4\<close> or sentiment score \<open>> 0\<close>; else negative
  if rating \<open>\<le> 2\<close> or sentiment score \<open>< 0\<close>; else neutral.\<close>

datatype bucket = Positive | Negative | Neutral

definition bucket_of :: "review \<Rightarrow> bucket" where
  "bucket_of r =
     (if js_ge (r_rating r) (Fin 4) \<or> scoreSentiment (r_text r) > 0 then Positive
      else if js_le (r_rating r) (Fin 2) \<or> scoreSentiment (r_text r) < 0 then Negative
      else Neutral)"

text \<open>Themes: the distinct tokens in the order in which each was first seen, each with
  the number of its occurrences.\<close>

definition first_seen :: "'a list \<Rightarrow> 'a list" where
  "first_seen xs = rev (remdups (rev xs))"

definition token_frequencies :: "string list \<Rightarrow> (string \<times> nat) list" where
  "token_frequencies ts = map (\<lambda>w. (w, count_list ts w)) (first_seen ts)"

definition review_tokens :: "review list \<Rightarrow> string list" where
  "review_tokens rs = concat (map (\<lambda>r. tokenize (r_text r)) rs)"









text \<open>Recommendation score, in double arithmetic:
  rating \<open>\<times> 2 + (1 - min (|\<Delta>price| / max (base price, 1), 1)) +\<close> (1 if in stock).\<close>

definition spec_recommendation_score :: "product \<Rightarrow> product \<Rightarrow> jsnum" where
  "spec_recommendation_score b p =
     js_add
       (js_add (js_mul (p_rating p) (Fin 2))
          (js_sub (Fin 1)
             (js_min
                (js_div (js_abs (js_sub (p_price p) (p_price b))) (js_max (p_price b) (Fin 1)))
                (Fin 1))))
       (if js_gt (p_stock p) (Fin 0) then Fin 1 else Fin 0)"

definition same_category_others :: "cache \<Rightarrow> product \<Rightarrow> string \<Rightarrow> product list" where
  "same_category_others c b pid =
     filter (\<lambda>p. p_category p = p_category b \<and> p_id p \<noteq> pid) (products c)"

text \<open>The snapshot that a load builds from the rows of the three sources.\<close>

definition snapshot_of :: "product_row list \<Rightarrow> review_row list \<Rightarrow> policy_row list \<Rightarrow> cache" where
  "snapshot_of prows rrows polrows =
     build_cache (map product_of_row prows) (map review_of_row rrows) (parsePolicies polrows)"

text \<open>The products of the category of a product, their prices where these are finite,
  and the products of the category that are strictly cheaper.\<close>

definition category_products :: "cache \<Rightarrow> product \<Rightarrow> product list" where
  "category_products c b = filter (\<lambda>p. p_category p = p_category b) (products c)"

definition category_prices :: "cache \<Rightarrow> product \<Rightarrow> rat list" where
  "category_prices c b = map (\<lambda>p. num_val (p_price p)) (category_products c b)"

definition cheaper_products :: "cache \<Rightarrow> product \<Rightarrow> product list" where
  "cheaper_products c b =
     filter (\<lambda>p. p_category p = p_category b \<and> js_lt (p_price p) (p_price b)) (products c)"

text \<open>The mean in double arithmetic: the numbers are added one by one, from the left, to a
  sum that starts at 0, every addition rounded, and the sum is divided by their count.\<close>

definition double_sum :: "rat list \<Rightarrow> jsnum" where
  "double_sum xs = fold (\<lambda>x s. js_add s (Fin x)) xs (Fin 0)"

definition double_mean :: "rat list \<Rightarrow> jsnum" where
  "double_mean xs = js_div (double_sum xs) (js_of_nat (length xs))"

section \<open>Example data\<close>

text \<open>Three policies, two of them with the description that the category
  \<^verbatim>\<open>laptop\<close> maps to.\<close>

definition example_policies :: "policy list" where
  "example_policies =
     [\<lparr>pol_policy_type = ''warranty'', pol_description = ''Laptop Warranty'',
       pol_conditions = [''receipt''], pol_timeframe = Fin 365\<rparr>,
      \<lparr>pol_policy_type = ''returns'', pol_description = ''Laptop Return Policy'',
       pol_conditions = [''unopened'', ''receipt''], pol_timeframe = Fin 30\<rparr>,
      \<lparr>pol_policy_type = ''returns'', pol_description = ''Laptop Return Policy'',
       pol_conditions = [], pol_timeframe = Fin 14\<rparr>]"

text \<open>Source files with one product, one review and one policy, last written at
  time 5 and, in a second state of the directory, at time 9.\<close>

definition example_fs :: "rat \<Rightarrow> filesystem" where
  "example_fs t =
     \<lparr>products_csv = Some \<lparr>mtimeMs = t, csv_rows = Inr
        [\<lparr>row_id = ''p1'', row_name = ''Laptop'', row_brand = ''Acme'',
          row_category = ''laptop'', row_price = ''999.5'', row_description = ''thin'',
          row_stock = ''3'', row_rating = ''4''\<rparr>]\<rparr>,
      reviews_csv = Some \<lparr>mtimeMs = 2, csv_rows = Inr
        [\<lparr>row_product_id = ''p1'', row_review_rating = ''5'', row_text = ''great'',
          row_date = ''2024-01-01''\<rparr>]\<rparr>,
      policies_csv = Some \<lparr>mtimeMs = 1, csv_rows = Inr
        [\<lparr>row_policy_type = ''returns'', row_policy_description = ''Laptop Return Policy'',
          row_conditions = ''unopened|receipt'', row_timeframe = ''30''\<rparr>]\<rparr>\<rparr>"

text \<open>The store after a load of \<open>example_fs 5\<close> that read the clock at 1002.\<close>

definition example_store :: store where
  "example_store =
     \<lparr>cache = Some (build_cache
        [\<lparr>p_id = ''p1'', p_name = ''Laptop'', p_brand = ''Acme'', p_category = ''laptop'',
          p_price = Fin (1999 / 2), p_description = ''thin'', p_stock = Fin 3,
          p_rating = Fin 4\<rparr>]
        [\<lparr>r_product_id = ''p1'', r_rating = Fin 5, r_text = ''great'',
          r_date = ''2024-01-01''\<rparr>]
        [\<lparr>pol_policy_type = ''returns'', pol_description = ''Laptop Return Policy'',
          pol_conditions = [''unopened'', ''receipt''], pol_timeframe = Fin 30\<rparr>]),
      lastLoaded = 1002, lastModified = 5\<rparr>"

text \<open>The recommendation example: a base product of price 100 and two candidates of its
  category, A (price 100, stock 5, rating 4) before B (price 300, stock 0, rating 5).\<close>

definition example_base :: product where
  "example_base =
     \<lparr>p_id = ''base'', p_name = ''Base'', p_brand = ''Acme'', p_category = ''laptop'',
      p_price = Fin 100, p_description = ''base model'', p_stock = Fin 2, p_rating = Fin 4\<rparr>"

definition example_A :: product where
  "example_A =
     \<lparr>p_id = ''A'', p_name = ''A'', p_brand = ''Acme'', p_category = ''laptop'',
      p_price = Fin 100, p_description = ''candidate'', p_stock = Fin 5, p_rating = Fin 4\<rparr>"

definition example_B :: product where
  "example_B =
     \<lparr>p_id = ''B'', p_name = ''B'', p_brand = ''Acme'', p_category = ''laptop'',
      p_price = Fin 300, p_description = ''candidate'', p_stock = Fin 0, p_rating = Fin 5\<rparr>"

text \<open>Three product rows of one category in which the exact scores of the two
  candidates tie at 9.6: the base (price 100), a candidate of price 100, in stock, rated
  3.8, and after it a candidate of price 120, out of stock, rated 4.4.\<close>

definition tie_base :: product_row where
  "tie_base =
     \<lparr>row_id = ''base'', row_name = ''Base'', row_brand = ''Acme'', row_category = ''laptop'',
      row_price = ''100'', row_description = ''base model'', row_stock = ''2'',
      row_rating = ''4''\<rparr>"

definition tie_c1 :: product_row where
  "tie_c1 =
     \<lparr>row_id = ''c1'', row_name = ''C1'', row_brand = ''Acme'', row_category = ''laptop'',
      row_price = ''100'', row_description = ''candidate'', row_stock = ''1'',
      row_rating = ''3.8''\<rparr>"

definition tie_c2 :: product_row where
  "tie_c2 =
     \<lparr>row_id = ''c2'', row_name = ''C2'', row_brand = ''Acme'', row_category = ''laptop'',
      row_price = ''120'', row_description = ''candidate'', row_stock = ''0'',
      row_rating = ''4.4''\<rparr>"

text \<open>Two product rows of different categories, the first with an empty identifier.\<close>

definition unnamed_row :: product_row where
  "unnamed_row =
     \<lparr>row_id = [], row_name = ''Ghost'', row_brand = ''Acme'', row_category = ''laptop'',
      row_price = ''100'', row_description = ''no identifier'', row_stock = ''1'',
      row_rating = ''1''\<rparr>"

definition tv_row :: product_row where
  "tv_row =
     \<lparr>row_id = ''tv1'', row_name = ''TV'', row_brand = ''Acme'', row_category = ''smart_tv'',
      row_price = ''300'', row_description = ''television'', row_stock = ''2'',
      row_rating = ''5''\<rparr>"

text \<open>A product row of the category \<^verbatim>\<open>speaker\<close> with a given identifier and price
  field. The price comparison example has the price fields 50, 70 and 90.\<close>

definition priced_row :: "string \<Rightarrow> string \<Rightarrow> product_row" where
  "priced_row i x =
     \<lparr>row_id = i, row_name = i, row_brand = ''Acme'', row_category = ''speaker'',
      row_price = x, row_description = ''speaker'', row_stock = ''1'', row_rating = ''4''\<rparr>"

definition priced :: "string \<Rightarrow> string \<Rightarrow> product" where
  "priced i x = product_of_row (priced_row i x)"

section \<open>Properties\<close>


subsection \<open>Rounding to the nearest double\<close>

lemma pow2_powi: "pow2 e = 2 powi e"
  by (simp add: pow2_def power_int_def inverse_eq_divide power_divide)

lemma pow2_pos: "0 < pow2 e"
  by (simp add: pow2_powi)

lemma pow2_add: "pow2 (a + b) = pow2 a * pow2 b"
  by (simp add: pow2_powi power_int_add)

lemma pow2_nat: "0 \<le> e \<Longrightarrow> pow2 e = 2 ^ nat e"
  by (simp add: pow2_def)

lemma pow2_mono: "a \<le> b \<Longrightarrow> pow2 a \<le> pow2 b"
  by (simp add: pow2_powi power_int_increasing)

lemma pow2_strict_mono: "a < b \<Longrightarrow> pow2 a < pow2 b"
  by (simp add: pow2_powi power_int_strict_increasing)

lemma pow2_0: "pow2 0 = 1"
  by (simp add: pow2_def)

lemma binade_lower:
  assumes "0 < a"
  shows "pow2 (binade a) \<le> a"
proof (cases "1 \<le> a")
  case True
  define m where "m = \<lfloor>a\<rfloor>"
  have m1: "1 \<le> m" using True by (simp add: m_def le_floor_iff)
  then have mpos: "0 < m" by simp
  have b: "2 ^ nat (bitlen m - 1) \<le> m"
    using bitlen_bounds [OF mpos] by simp
  have e0: "0 \<le> bitlen m - 1"
    using mpos by (simp add: bitlen_alt_def)
  have "pow2 (bitlen m - 1) = of_int (2 ^ nat (bitlen m - 1))"
    by (simp add: pow2_nat [OF e0])
  also have "\<dots> \<le> of_int m"
    using b by (simp only: of_int_le_iff)
  also have "\<dots> \<le> a"
    by (simp add: m_def)
  finally show ?thesis
    using True by (simp add: binade_def m_def)
next
  case False
  define m where "m = \<lfloor>1 / a\<rfloor>"
  define k where "k = bitlen m - 1"
  have a1: "a < 1" using False by simp
  have inv: "1 < 1 / a" using assms a1 by simp
  have m1: "1 \<le> m" using inv by (simp add: m_def le_floor_iff)
  then have mpos: "0 < m" by simp
  have k0: "0 \<le> k"
    using mpos by (simp add: k_def bitlen_alt_def)
  have up: "m < 2 ^ nat (bitlen m)"
    using bitlen_bounds [OF mpos] by simp
  have "1 / a < of_int m + 1"
    unfolding m_def by linarith
  also have "\<dots> \<le> of_int (2 ^ nat (bitlen m))"
    using up by (metis of_int_1 of_int_add of_int_le_iff zless_imp_add1_zle)
  also have "\<dots> = pow2 (k + 1)"
    using k0 by (simp add: k_def pow2_def)
  finally have "1 / a < pow2 (k + 1)" .
  then have "1 < pow2 (k + 1) * a"
    using assms by (simp add: field_simps)
  then have "pow2 (- k - 1) * 1 < pow2 (- k - 1) * (pow2 (k + 1) * a)"
    using pow2_pos by (simp only: mult_less_cancel_left_pos)
  then have low: "pow2 (- k - 1) < a"
    using pow2_add [of "- k - 1" "k + 1"] by (simp add: pow2_0 mult.assoc [symmetric])
  show ?thesis
    using False low by (simp add: binade_def Let_def m_def [symmetric] k_def [symmetric])
qed


lemma rhe_floor: "\<lfloor>x\<rfloor> \<le> round_half_even x \<and> round_half_even x \<le> \<lfloor>x\<rfloor> + 1"
  by (simp add: round_half_even_def Let_def)

lemma rhe_of_int: "round_half_even (of_int k) = k"
  by (simp add: round_half_even_def)

lemma rhe_ge1: "1 \<le> x \<Longrightarrow> 1 \<le> round_half_even x"
proof -
  assume "1 \<le> x"
  then have "1 \<le> \<lfloor>x\<rfloor>" by (simp add: le_floor_iff)
  then show ?thesis using rhe_floor [of x] by linarith
qed

lemma rhe_nonneg: "0 \<le> x \<Longrightarrow> 0 \<le> round_half_even x"
proof -
  assume "0 \<le> x"
  then have "0 \<le> \<lfloor>x\<rfloor>" by simp
  then show ?thesis using rhe_floor [of x] by linarith
qed

lemma round_magnitude_grid:
  assumes "round_magnitude a = Some r"
  shows "\<exists>k::int. r = of_int k * pow2 (- 1074)"
proof -
  define e where "e = max (binade a) (- 1022)"
  define n where "n = round_half_even (a / pow2 (e - 52))"
  have r: "r = of_int n * pow2 (e - 52)"
    using assms
    by (simp add: round_magnitude_def Let_def e_def [symmetric] n_def [symmetric] split: if_splits)
  have e0: "0 \<le> e + 1022" by (simp add: e_def)
  have "pow2 (e - 52) = pow2 ((e + 1022) + (- 1074))" by simp
  also have "\<dots> = pow2 (e + 1022) * pow2 (- 1074)" by (rule pow2_add)
  also have "pow2 (e + 1022) = of_int (2 ^ nat (e + 1022))"
    by (simp add: pow2_nat [OF e0])
  finally have u: "pow2 (e - 52) = of_int (2 ^ nat (e + 1022)) * pow2 (- 1074)" .
  have "r = of_int (n * 2 ^ nat (e + 1022)) * pow2 (- 1074)"
    by (simp add: r u)
  then show ?thesis by blast
qed

lemma round_magnitude_nonneg:
  assumes "0 \<le> a" and "round_magnitude a = Some r"
  shows "0 \<le> r"
proof -
  define e where "e = max (binade a) (- 1022)"
  define n where "n = round_half_even (a / pow2 (e - 52))"
  have r: "r = of_int n * pow2 (e - 52)"
    using assms(2)
    by (simp add: round_magnitude_def Let_def e_def [symmetric] n_def [symmetric] split: if_splits)
  have "0 \<le> a / pow2 (e - 52)"
    using assms(1) pow2_pos [of "e - 52"] by simp
  then have "0 \<le> n" unfolding n_def by (rule rhe_nonneg)
  then show ?thesis
    using pow2_pos [of "e - 52"] by (simp add: r)
qed

lemma round_magnitude_pos:
  assumes "pow2 (- 1074) \<le> a" and "round_magnitude a = Some r"
  shows "0 < r"
proof -
  have pos: "0 < a" using assms(1) pow2_pos [of "- 1074"] by linarith
  define e where "e = max (binade a) (- 1022)"
  define n where "n = round_half_even (a / pow2 (e - 52))"
  have r: "r = of_int n * pow2 (e - 52)"
    using assms(2)
    by (simp add: round_magnitude_def Let_def e_def [symmetric] n_def [symmetric] split: if_splits)
  have "1 \<le> a / pow2 (e - 52)"
  proof (cases "binade a \<le> - 1022")
    case True
    then have "e = - 1022" by (simp add: e_def)
    then show ?thesis using assms(1) pow2_pos [of "- 1074"] by (simp add: field_simps)
  next
    case False
    then have ee: "e = binade a" by (simp add: e_def)
    have "pow2 (e - 52) \<le> pow2 e" by (rule pow2_mono) simp
    also have "\<dots> \<le> a" unfolding ee using pos by (rule binade_lower)
    finally show ?thesis using pow2_pos [of "e - 52"] by (simp add: field_simps)
  qed
  then have "1 \<le> n" unfolding n_def by (rule rhe_ge1)
  then show ?thesis
    using pow2_pos [of "e - 52"] by (simp add: r)
qed

lemma round_magnitude_small:
  assumes "0 < a" and "a \<le> 1"
  shows "\<exists>r. round_magnitude a = Some r"
proof -
  have "binade a \<le> 0"
  proof (rule ccontr)
    assume "\<not> binade a \<le> 0"
    then have "pow2 0 < pow2 (binade a)" by (intro pow2_strict_mono) simp
    also have "\<dots> \<le> a" using assms(1) by (rule binade_lower)
    finally show False using assms(2) by (simp add: pow2_0)
  qed
  then have "max (binade a) (- 1022) \<le> 0" by simp
  then have "\<not> 1024 \<le> max (binade a) (- 1022)" and "max (binade a) (- 1022) \<noteq> 1023"
    by linarith+
  then show ?thesis
    unfolding round_magnitude_def Let_def by (simp only: if_False simp_thms) blast
qed

lemma round_magnitude_of_int:
  assumes "0 < n" and "n < 2 ^ 53"
  shows "round_magnitude (of_int n) = Some (of_int n)"
proof -
  define e where "e = bitlen n - 1"
  have b: "2 ^ nat e \<le> n" and e0: "0 \<le> e"
    using bitlen_bounds [OF assms(1)] assms(1) by (simp_all add: e_def bitlen_alt_def)
  have "(2::int) ^ nat e < 2 ^ 53" using b assms(2) by linarith
  then have "nat e < 53" by (simp only: power_strict_increasing_iff)
  then have e52: "e \<le> 52" by simp
  have bin: "binade (of_int n) = e"
    using assms(1) by (simp add: binade_def e_def)
  have mx: "max e (- 1022) = e" using e0 by simp
  have u: "pow2 (e - 52) * of_int (2 ^ nat (52 - e)) = 1"
  proof -
    have "pow2 (e - 52) * pow2 (52 - e) = pow2 0"
      using pow2_add [of "e - 52" "52 - e"] by simp
    moreover have "pow2 (52 - e) = of_int (2 ^ nat (52 - e))"
      using e52 by (simp add: pow2_nat)
    ultimately show ?thesis by (simp add: pow2_0)
  qed
  have q: "of_int n / pow2 (e - 52) = of_int (n * 2 ^ nat (52 - e))"
  proof -
    have "of_int n / pow2 (e - 52) = of_int n * (pow2 (e - 52) * of_int (2 ^ nat (52 - e))) / pow2 (e - 52)"
      by (simp only: u mult_1_right)
    also have "\<dots> = of_int n * of_int (2 ^ nat (52 - e))"
      using pow2_pos [of "e - 52"] by simp
    finally show ?thesis by simp
  qed
  have r: "round_half_even (of_int n / pow2 (e - 52)) = n * 2 ^ nat (52 - e)"
    by (simp only: q rhe_of_int)
  have bk: "of_int (n * 2 ^ nat (52 - e)) * pow2 (e - 52) = (of_int n :: rat)"
  proof -
    have "of_int (n * 2 ^ nat (52 - e)) * pow2 (e - 52)
          = of_int n * (pow2 (e - 52) * of_int (2 ^ nat (52 - e)))"
      by simp
    then show ?thesis by (simp only: u mult_1_right)
  qed
  have c: "\<not> (1024 \<le> e \<or> (e = 1023 \<and> n * 2 ^ nat (52 - e) = 2 ^ 53))"
    using e52 by simp
  show ?thesis
    unfolding round_magnitude_def Let_def bin mx r
    by (simp only: c if_False bk)
qed

lemma round_double_not_NaN: "round_double x \<noteq> NaN"
  by (simp add: round_double_def split: option.splits)

lemma round_double_neg: "round_double (- x) = js_neg (round_double x)"
  by (cases "x = 0"; cases "0 < x"; cases "round_magnitude \<bar>x\<bar>")
     (simp_all add: round_double_def sgn_if)

lemma round_double_grid:
  assumes "round_double x = Fin r"
  shows "grid r"
proof (cases "x = 0")
  case True
  then have "r = of_int 0 * pow2 (- 1074)" using assms by (simp add: round_double_def)
  then show ?thesis unfolding grid_def by blast
next
  case False
  then obtain m where m: "round_magnitude \<bar>x\<bar> = Some m" and r: "r = sgn x * m"
    using assms by (auto simp: round_double_def split: option.splits if_splits)
  obtain k :: int where k: "m = of_int k * pow2 (- 1074)"
    using round_magnitude_grid [OF m] by blast
  have "r = of_int ((if 0 < x then 1 else - 1) * k) * pow2 (- 1074)"
    using False by (simp add: r k sgn_if)
  then show ?thesis unfolding grid_def by blast
qed

lemma round_double_nonneg:
  assumes "0 \<le> x"
  shows "round_double x = PosInf \<or> (\<exists>r\<ge>0. round_double x = Fin r)"
proof (cases "x = 0")
  case True
  then show ?thesis by (simp add: round_double_def)
next
  case False
  then have pos: "0 < x" using assms by simp
  show ?thesis
  proof (cases "round_magnitude \<bar>x\<bar>")
    case None
    then show ?thesis using pos by (simp add: round_double_def)
  next
    case (Some m)
    have "0 \<le> m" using round_magnitude_nonneg [OF _ Some] by simp
    then show ?thesis using pos Some by (simp add: round_double_def)
  qed
qed

lemma round_double_pos:
  assumes "pow2 (- 1074) \<le> x"
  shows "round_double x = PosInf \<or> (\<exists>r>0. round_double x = Fin r)"
proof -
  have pos: "0 < x" using assms pow2_pos [of "- 1074"] by linarith
  then have ax: "\<bar>x\<bar> = x" by simp
  show ?thesis
  proof (cases "round_magnitude \<bar>x\<bar>")
    case None
    then show ?thesis using pos by (simp add: round_double_def)
  next
    case (Some m)
    have "0 < m" using round_magnitude_pos [of x m] assms Some by (simp add: ax)
    then show ?thesis using pos Some by (simp add: round_double_def)
  qed
qed

lemma round_double_small:
  assumes "\<bar>x\<bar> \<le> 1"
  shows "\<exists>r. round_double x = Fin r"
proof (cases "x = 0")
  case True
  then show ?thesis by (simp add: round_double_def)
next
  case False
  then have "0 < \<bar>x\<bar>" by simp
  then obtain m where "round_magnitude \<bar>x\<bar> = Some m"
    using round_magnitude_small [OF _ assms] by blast
  then show ?thesis using False by (simp add: round_double_def)
qed

lemma round_double_of_int:
  assumes "\<bar>n\<bar> < 2 ^ 53"
  shows "round_double (of_int n) = Fin (of_int n)"
proof (cases "n = 0")
  case True
  then show ?thesis by (simp add: round_double_def)
next
  case False
  then have "0 < \<bar>n\<bar>" by simp
  then have "round_magnitude (of_int \<bar>n\<bar>) = Some (of_int \<bar>n\<bar>)"
    using assms by (rule round_magnitude_of_int)
  then have m: "round_magnitude \<bar>of_int n\<bar> = Some \<bar>of_int n\<bar>"
    by simp
  have "sgn (of_int n :: rat) * \<bar>of_int n\<bar> = of_int n"
    by (simp add: sgn_mult_abs)
  then show ?thesis
    using False by (simp add: round_double_def m del: of_int_abs)
qed

lemma round_double_numeral:
  assumes "numeral k < (2::int) ^ 53"
  shows "round_double (numeral k) = Fin (numeral k)"
  using round_double_of_int [of "numeral k"] assms by simp

text \<open>The binade is the one that holds the number, and rounding moves a number by at
  most half the spacing of the doubles around it.\<close>

lemma binade_upper:
  assumes "0 < a"
  shows "a < pow2 (binade a + 1)"
proof (cases "1 \<le> a")
  case True
  define m where "m = \<lfloor>a\<rfloor>"
  have m1: "1 \<le> m" using True by (simp add: m_def le_floor_iff)
  then have mpos: "0 < m" by simp
  have up: "m < 2 ^ nat (bitlen m)"
    using bitlen_bounds [OF mpos] by simp
  have b0: "0 \<le> bitlen m"
    by (rule bitlen_nonneg)
  have "a < of_int m + 1"
    unfolding m_def by linarith
  also have "\<dots> \<le> of_int (2 ^ nat (bitlen m))"
    using up by (metis of_int_1 of_int_add of_int_le_iff zless_imp_add1_zle)
  also have "\<dots> = pow2 (bitlen m)"
    by (simp add: pow2_nat [OF b0])
  finally show ?thesis
    using True by (simp add: binade_def m_def)
next
  case False
  define m where "m = \<lfloor>1 / a\<rfloor>"
  define k where "k = bitlen m - 1"
  have a1: "a < 1" using False by simp
  have inv: "1 < 1 / a" using assms a1 by simp
  have m1: "1 \<le> m" using inv by (simp add: m_def le_floor_iff)
  then have mpos: "0 < m" by simp
  have k0: "0 \<le> k"
    using mpos by (simp add: k_def bitlen_alt_def)
  have lo: "2 ^ nat k \<le> m"
    using bitlen_bounds [OF mpos] by (simp add: k_def)
  have "pow2 k = of_int (2 ^ nat k)"
    by (simp add: pow2_nat [OF k0])
  also have "\<dots> \<le> of_int m"
    using lo by (simp only: of_int_le_iff)
  also have "\<dots> \<le> 1 / a"
    by (simp add: m_def)
  finally have "pow2 k * a \<le> 1"
    using assms by (simp add: field_simps)
  moreover have "pow2 k * pow2 (- k) = 1"
    using pow2_add [of k "- k"] by (simp add: pow2_0)
  ultimately have "pow2 k * a \<le> pow2 k * pow2 (- k)"
    by simp
  then have le: "a \<le> pow2 (- k)"
    using pow2_pos [of k] by (simp only: mult_le_cancel_left_pos)
  show ?thesis
  proof (cases "pow2 (- k) \<le> a")
    case True
    have "a \<le> pow2 (- k)" by (rule le)
    also have "\<dots> < pow2 (- k + 1)" by (rule pow2_strict_mono) simp
    finally show ?thesis
      using False True by (simp add: binade_def Let_def m_def [symmetric] k_def [symmetric])
  next
    case nle: False
    then have "a < pow2 (- k)" by simp
    then show ?thesis
      using False nle by (simp add: binade_def Let_def m_def [symmetric] k_def [symmetric])
  qed
qed

lemma rhe_error: "\<bar>of_int (round_half_even x) - x\<bar> \<le> 1 / 2"
proof -
  have "of_int \<lfloor>x\<rfloor> \<le> x" and "x < of_int \<lfloor>x\<rfloor> + 1"
    by linarith+
  then show ?thesis
    by (auto simp: round_half_even_def Let_def abs_le_iff)
qed

lemma round_magnitude_error:
  assumes "round_magnitude a = Some r"
  shows "\<bar>r - a\<bar> \<le> pow2 (max (binade a) (- 1022) - 53)"
proof -
  define e where "e = max (binade a) (- 1022)"
  define n where "n = round_half_even (a / pow2 (e - 52))"
  have r: "r = of_int n * pow2 (e - 52)"
    using assms
    by (simp add: round_magnitude_def Let_def e_def [symmetric] n_def [symmetric] split: if_splits)
  have p: "0 < pow2 (e - 52)"
    by (rule pow2_pos)
  have half: "pow2 (e - 52) = 2 * pow2 (e - 53)"
    using pow2_add [of 1 "e - 53"] by (simp add: pow2_def)
  have "\<bar>of_int n - a / pow2 (e - 52)\<bar> \<le> 1 / 2"
    unfolding n_def by (rule rhe_error)
  then have "\<bar>of_int n - a / pow2 (e - 52)\<bar> * pow2 (e - 52) \<le> 1 / 2 * pow2 (e - 52)"
    using p by (simp only: mult_le_cancel_right_pos)
  moreover have "\<bar>of_int n - a / pow2 (e - 52)\<bar> * pow2 (e - 52) = \<bar>r - a\<bar>"
  proof -
    have "\<bar>of_int n - a / pow2 (e - 52)\<bar> * pow2 (e - 52)
          = \<bar>(of_int n - a / pow2 (e - 52)) * pow2 (e - 52)\<bar>"
      using p by (simp add: abs_mult)
    also have "(of_int n - a / pow2 (e - 52)) * pow2 (e - 52) = r - a"
      using p by (simp add: r left_diff_distrib)
    finally show ?thesis .
  qed
  ultimately have "\<bar>r - a\<bar> \<le> 1 / 2 * pow2 (e - 52)"
    by (simp only:)
  also have "\<dots> = pow2 (e - 53)"
    by (simp only: half)
  finally show ?thesis
    by (simp only: e_def)
qed

lemma round_double_error:
  assumes "round_double x = Fin r"
  shows "\<bar>r - x\<bar> \<le> pow2 (max (binade \<bar>x\<bar>) (- 1022) - 53)"
proof (cases "x = 0")
  case True
  then have "r = 0" using assms by (simp add: round_double_def)
  then show ?thesis
    using True pow2_pos [of "max (binade \<bar>x\<bar>) (- 1022) - 53"] by simp
next
  case False
  then obtain m where m: "round_magnitude \<bar>x\<bar> = Some m" and r: "r = sgn x * m"
    using assms by (auto simp: round_double_def split: option.splits if_splits)
  have "r - x = sgn x * (m - \<bar>x\<bar>)"
    by (simp add: r right_diff_distrib sgn_mult_abs)
  then have "\<bar>r - x\<bar> = \<bar>m - \<bar>x\<bar>\<bar>"
    using False by (simp add: abs_mult abs_sgn_eq)
  then show ?thesis
    using round_magnitude_error [OF m] by simp
qed

text \<open>In the normal range the error is at most \<open>2^-53\<close> of the number.\<close>

lemma round_double_relative_error:
  assumes "round_double x = Fin r" and "pow2 (- 1022) \<le> \<bar>x\<bar>"
  shows "\<bar>r - x\<bar> \<le> \<bar>x\<bar> * pow2 (- 53)"
proof -
  have pos: "0 < \<bar>x\<bar>"
    using assms(2) pow2_pos [of "- 1022"] by linarith
  have "- 1022 \<le> binade \<bar>x\<bar>"
  proof (rule ccontr)
    assume "\<not> - 1022 \<le> binade \<bar>x\<bar>"
    then have "binade \<bar>x\<bar> + 1 \<le> - 1022" by simp
    then have "pow2 (binade \<bar>x\<bar> + 1) \<le> pow2 (- 1022)" by (rule pow2_mono)
    then show False
      using binade_upper [OF pos] assms(2) by linarith
  qed
  then have e: "max (binade \<bar>x\<bar>) (- 1022) = binade \<bar>x\<bar>"
    by simp
  have "\<bar>r - x\<bar> \<le> pow2 (binade \<bar>x\<bar> - 53)"
    using round_double_error [OF assms(1)] by (simp only: e)
  also have "\<dots> = pow2 (binade \<bar>x\<bar>) * pow2 (- 53)"
    using pow2_add [of "binade \<bar>x\<bar>" "- 53"] by simp
  also have "\<dots> \<le> \<bar>x\<bar> * pow2 (- 53)"
    using binade_lower [OF pos] pow2_pos [of "- 53"] by (simp only: mult_le_cancel_right_pos)
  finally show ?thesis .
qed

text \<open>Everywhere, the error is at most \<open>2^-53\<close> of the number plus half the least
  positive double.\<close>

lemma round_double_abs_error:
  assumes "round_double x = Fin r"
  shows "\<bar>r - x\<bar> \<le> \<bar>x\<bar> * pow2 (- 53) + pow2 (- 1075)"
proof (cases "pow2 (- 1022) \<le> \<bar>x\<bar>")
  case True
  have "\<bar>r - x\<bar> \<le> \<bar>x\<bar> * pow2 (- 53)"
    using assms True by (rule round_double_relative_error)
  then show ?thesis
    using pow2_pos [of "- 1075"] by linarith
next
  case False
  have "\<bar>r - x\<bar> \<le> pow2 (- 1075)"
  proof (cases "x = 0")
    case True
    then have "r = 0" using assms by (simp add: round_double_def)
    then show ?thesis using True pow2_pos [of "- 1075"] by simp
  next
    case nz: False
    then have pos: "0 < \<bar>x\<bar>" by simp
    have "binade \<bar>x\<bar> \<le> - 1022"
    proof (rule ccontr)
      assume "\<not> binade \<bar>x\<bar> \<le> - 1022"
      then have "pow2 (- 1022) \<le> pow2 (binade \<bar>x\<bar>)" by (intro pow2_mono) simp
      then show False
        using binade_lower [OF pos] False by linarith
    qed
    then have "max (binade \<bar>x\<bar>) (- 1022) = - 1022" by simp
    then show ?thesis
      using round_double_error [OF assms] by simp
  qed
  moreover have "0 \<le> \<bar>x\<bar> * pow2 (- 53)"
    using pow2_pos [of "- 53"] by simp
  ultimately show ?thesis by linarith
qed

text \<open>Every integer is a multiple of the least positive double, and the multiples are
  closed under sum and difference.\<close>

lemma pow2_1074: "of_int (2 ^ 1074) * pow2 (- 1074) = 1"
proof -
  have "pow2 1074 * pow2 (- 1074) = pow2 0"
    using pow2_add [of 1074 "- 1074"] by simp
  moreover have "pow2 1074 = of_int (2 ^ 1074)"
    by (simp add: pow2_def)
  ultimately show ?thesis
    by (simp only: pow2_0)
qed

lemma grid_of_int: "grid (of_int n)"
proof -
  have "of_int (n * 2 ^ 1074) * pow2 (- 1074) = of_int n * (of_int (2 ^ 1074) * pow2 (- 1074))"
    by (simp only: of_int_mult mult.assoc)
  then have "of_int n = of_int (n * 2 ^ 1074) * pow2 (- 1074)"
    by (simp only: pow2_1074 mult_1_right)
  then show ?thesis
    unfolding grid_def by (rule exI)
qed

lemma grid_of_nat: "grid (of_nat n)"
  using grid_of_int [of "int n"] by simp

lemma grid_0: "grid 0"
  using grid_of_int [of 0] by simp

lemma grid_minus: "grid a \<Longrightarrow> grid (- a)"
proof -
  assume "grid a"
  then obtain k :: int where "a = of_int k * pow2 (- 1074)"
    unfolding grid_def by blast
  then have "- a = of_int (- k) * pow2 (- 1074)"
    by simp
  then show ?thesis
    unfolding grid_def by (rule exI)
qed

lemma grid_add: "grid a \<Longrightarrow> grid b \<Longrightarrow> grid (a + b)"
proof -
  assume "grid a" and "grid b"
  then obtain k l :: int where "a = of_int k * pow2 (- 1074)" and "b = of_int l * pow2 (- 1074)"
    unfolding grid_def by blast
  then have "a + b = of_int (k + l) * pow2 (- 1074)"
    by (simp add: distrib_right)
  then show ?thesis
    unfolding grid_def by (rule exI)
qed

lemma grid_pos: 
  assumes "grid x" and "0 < x"
  shows "pow2 (- 1074) \<le> x"
proof -
  obtain k :: int where k: "x = of_int k * pow2 (- 1074)"
    using assms(1) unfolding grid_def by blast
  have p: "0 < pow2 (- 1074)"
    by (rule pow2_pos)
  have "0 < (of_int k :: rat)"
    using assms(2) p unfolding k by (simp only: zero_less_mult_pos2)
  then have "1 \<le> k"
    by simp
  then have "(1::rat) \<le> of_int k"
    by simp
  then have "1 * pow2 (- 1074) \<le> of_int k * pow2 (- 1074)"
    using p by (simp only: mult_le_cancel_right_pos)
  then show ?thesis
    unfolding k by simp
qed

text \<open>Rounding a multiple of the least positive double keeps its sign: a difference
  of two doubles that is not zero does not round to zero.\<close>

lemma round_double_sign:
  assumes "grid x"
  shows "js_lt (Fin 0) (round_double x) = (0 < x)"
proof (cases "0 < x")
  case True
  have "round_double x = PosInf \<or> (\<exists>r>0. round_double x = Fin r)"
    using grid_pos [OF assms True] by (rule round_double_pos)
  then show ?thesis
    using True by auto
next
  case False
  show ?thesis
  proof (cases "x = 0")
    case True
    then show ?thesis by (simp add: round_double_def)
  next
    case nz: False
    then have pos: "0 < - x"
      using False by simp
    have "round_double (- x) = PosInf \<or> (\<exists>r>0. round_double (- x) = Fin r)"
      using grid_pos [OF grid_minus [OF assms] pos] by (rule round_double_pos)
    moreover have "round_double x = js_neg (round_double (- x))"
      using round_double_neg [of "- x"] by simp
    ultimately show ?thesis
      using False by auto
  qed
qed

lemma on_grid_round_double: "on_grid (round_double x)"
  by (cases "round_double x") (simp_all add: round_double_grid)

lemma on_grid_js_neg: "on_grid (js_neg x) = on_grid x"
proof (cases x)
  case (Fin a)
  show ?thesis
    using grid_minus [of a] grid_minus [of "- a"] by (auto simp: Fin)
qed simp_all

lemma on_grid_js_add: "on_grid (js_add x y)"
  by (cases x; cases y) (simp_all add: on_grid_round_double)

lemma on_grid_js_of_nat: "on_grid (js_of_nat n)"
  by (simp add: js_of_nat_def grid_of_nat)

lemma js_add_not_NaN: "x \<noteq> NaN \<Longrightarrow> js_add x (Fin c) \<noteq> NaN"
  by (cases x) (simp_all add: round_double_not_NaN)

text \<open>The comparator \<^verbatim>\<open>a - b\<close> on doubles and infinities is positive exactly when
  \<open>a\<close> is the greater.\<close>

lemma js_gt_sub_rank:
  assumes "x \<noteq> NaN" and "y \<noteq> NaN" and "on_grid x" and "on_grid y"
  shows "js_gt (js_sub x y) (Fin 0) = (js_rank y < js_rank x)"
proof (cases x)
  case xf: (Fin a)
  show ?thesis
  proof (cases y)
    case (Fin b)
    have "grid a" and "grid (- b)"
      using assms(3,4) by (simp_all add: xf Fin grid_minus)
    then have "grid (a + - b)"
      by (rule grid_add)
    then have "js_lt (Fin 0) (round_double (a + - b)) = (0 < a + - b)"
      by (rule round_double_sign)
    then show ?thesis
      by (simp add: xf Fin js_gt_def js_sub_def)
  next
    case PosInf
    then show ?thesis by (simp add: xf js_gt_def js_sub_def)
  next
    case NegInf
    then show ?thesis by (simp add: xf js_gt_def js_sub_def)
  next
    case NaN
    then show ?thesis using assms by simp
  qed
next
  case PosInf
  then show ?thesis
    using assms by (cases y) (simp_all add: js_gt_def js_sub_def)
next
  case NegInf
  then show ?thesis
    using assms by (cases y) (simp_all add: js_gt_def js_sub_def)
next
  case NaN
  then show ?thesis using assms by simp
qed

lemma js_rank_desc_less: "(js_rank_desc y < js_rank_desc x) = (js_rank x < js_rank y)"
  by (cases x; cases y) simp_all

lemma js_rank_desc_le: "(js_rank_desc y \<le> js_rank_desc x) = (js_rank x \<le> js_rank y)"
  by (cases x; cases y) simp_all

lemma js_rank_inj: "js_rank x = js_rank y \<longleftrightarrow> x = y"
  by (cases x; cases y) simp_all

lemma js_rank_desc_inj: "js_rank_desc x = js_rank_desc y \<longleftrightarrow> x = y"
  by (cases x; cases y) simp_all

lemma js_rank_le: "x \<noteq> NaN \<Longrightarrow> y \<noteq> NaN \<Longrightarrow> (js_rank x \<le> js_rank y) = js_le x y"
  by (cases x; cases y) (simp_all add: not_less)

lemma js_gt_sub_Fin:
  assumes "grid a" and "grid b"
  shows "js_gt (js_sub (Fin a) (Fin b)) (Fin 0) = (b < a)"
  using js_gt_sub_rank [of "Fin a" "Fin b"] assms by simp

lemma js_gt_sub_of_nat:
  "js_gt (js_sub (js_of_nat m) (js_of_nat n)) (Fin 0) = (n < m)"
  by (simp add: js_of_nat_def js_gt_sub_Fin grid_of_nat)

subsection \<open>\<^verbatim>\<open>Number\<close> of a string\<close>

lemma parse_unsigned_decimal_grid: "parse_unsigned_decimal s = Some v \<Longrightarrow> on_grid v"
  by (auto simp: parse_unsigned_decimal_def Let_def on_grid_round_double
      split: if_splits option.splits)

lemma parse_non_decimal_grid: "parse_non_decimal s = Some v \<Longrightarrow> on_grid v"
  by (auto simp: parse_non_decimal_def on_grid_round_double split: list.splits if_splits)

lemma Number_str_grid: "on_grid (Number_str s)"
proof -
  have "on_grid v" if "(case t of
                        [] \<Rightarrow> None
                      | c # u \<Rightarrow>
                          (if c = CHR ''+'' then parse_unsigned_decimal u
                           else if c = CHR ''-'' then map_option js_neg (parse_unsigned_decimal u)
                           else parse_unsigned_decimal t)) = Some v" for t v
    using that
    by (auto simp: on_grid_js_neg split: list.splits if_splits dest: parse_unsigned_decimal_grid)
  then show ?thesis
    by (auto simp: Number_str_def Let_def grid_0 split: option.splits
        dest: parse_non_decimal_grid)
qed

lemma round_double_1: "round_double 1 = Fin 1"
  using round_double_of_int [of 1] by simp

lemma round_double_neg_numeral:
  assumes "numeral k < (2::int) ^ 53"
  shows "round_double (- numeral k) = Fin (- numeral k)"
  using round_double_of_int [of "- numeral k"] assms by simp

lemma round_double_1999_2: "round_double (1999 / 2) = Fin (1999 / 2)"
  by code_simp

lemma Number_str_examples:
  "Number_str ''999.5'' = Fin (1999 / 2)" "Number_str ''3'' = Fin 3" "Number_str ''4'' = Fin 4"
  "Number_str ''5'' = Fin 5" "Number_str ''30'' = Fin 30"
  by (simp_all add: Number_str_def trim_def is_space_def parse_non_decimal_def
      parse_unsigned_decimal_def is_digit_def parse_exponent_def decimal_value_def scale10_def
      round_double_numeral round_double_1999_2)

subsection \<open>Text normalizer\<close>

lemma normalizeText_empty: "normalizeText [] = []"
  by (simp add: normalizeText_def toLowerCase_def)

lemma tokenize_empty: "tokenize [] = []"
  by (simp add: tokenize_def normalizeText_empty split_ws_def)

lemma is_space_blank: "is_space CHR '' ''"
  by (simp add: is_space_def)

lemma normalizeText_chars: "list_all (\<lambda>c. is_lower_alnum c \<or> is_space c) (normalizeText s)"
  by (auto simp: normalizeText_def list_all_iff is_space_blank)

text \<open>A character that the normalizer keeps is its own lower case.\<close>

lemma lower_char_kept:
  assumes "is_lower_alnum c \<or> is_space c"
  shows "lower_char c = c"
proof -
  have "\<not> (65 \<le> (of_char c :: nat) \<and> (of_char c :: nat) \<le> 90)"
    and "\<not> (192 \<le> (of_char c :: nat) \<and> (of_char c :: nat) \<le> 222 \<and> (of_char c :: nat) \<noteq> 215)"
    using assms by (auto simp: is_lower_alnum_def is_space_def Let_def)
  then have "\<not> ((65 \<le> (of_char c :: nat) \<and> (of_char c :: nat) \<le> 90)
            \<or> (192 \<le> (of_char c :: nat) \<and> (of_char c :: nat) \<le> 222 \<and> (of_char c :: nat) \<noteq> 215))"
    by blast
  then show ?thesis
    unfolding lower_char_def Let_def by (rule if_not_P)
qed

lemma normalizeText_idem: "normalizeText (normalizeText s) = normalizeText s"
proof -
  have "map (\<lambda>c. if is_lower_alnum c \<or> is_space c then c else CHR '' '')
          (map lower_char (normalizeText s)) = normalizeText s"
    using normalizeText_chars [of s]
    by (induction "normalizeText s" arbitrary: s) (simp_all add: lower_char_kept list_all_iff map_idI)
  then show ?thesis
    by (simp add: normalizeText_def [of "normalizeText s"] toLowerCase_def)
qed

text \<open>The pieces of a split hold no white space, and only characters of the text.\<close>

lemma split_ws_from_pieces:
  assumes "t \<in> set (split_ws_from cur r s)" and "c \<in> set t"
  shows "c \<in> set cur \<or> (c \<in> set s \<and> \<not> is_space c)"
  using assms
proof (induction cur r s rule: split_ws_from.induct)
  case (1 cur in_run)
  then show ?case by simp
next
  case (2 cur in_run d ds)
  then show ?case
    by (auto split: if_splits)
qed

lemma split_ws_pieces:
  assumes "t \<in> set (split_ws s)" and "c \<in> set t"
  shows "c \<in> set s \<and> \<not> is_space c"
  using split_ws_from_pieces [of t "[]" False s c] assms by (simp add: split_ws_def)

lemma tokenize_tokens:
  "list_all (\<lambda>t. t \<noteq> [] \<and> t \<notin> set STOPWORDS \<and> list_all is_lower_alnum t) (tokenize s)"
proof -
  have "is_lower_alnum c" if "t \<in> set (split_ws (normalizeText s))" and "c \<in> set t" for t c
  proof -
    have "c \<in> set (normalizeText s)" and "\<not> is_space c"
      using split_ws_pieces [OF that] by simp_all
    then show ?thesis
      using normalizeText_chars [of s] by (auto simp: list_all_iff)
  qed
  then show ?thesis
    by (auto simp: tokenize_def list_all_iff)
qed

text \<open>
  C3, as stated: normalize and tokenize return on every input, the undefined input
  included, and yield empty output on it. They do not: called with \<^verbatim>\<open>undefined\<close>,
  \<^verbatim>\<open>normalizeText\<close> throws a TypeError, and \<^verbatim>\<open>tokenize\<close> with it.
\<close>

theorem normalize_undefined_throws:
  "normalizeText_call V_undefined = Inl TypeError \<and> tokenize_call V_undefined = Inl TypeError"
  by (simp add: normalizeText_call_def tokenize_call_def)

text \<open>
  C3, amended: normalize and tokenize return exactly when their argument is a string, and
  throw a TypeError on every other value. On every string, the empty string included,
  the result is a function of the string alone. The result of normalize holds only the
  characters a-z, 0-9 and white space, and normalize leaves it as it is; the tokens are
  non-empty words over a-z and 0-9, none of them a stop word. On the empty string
  normalize yields the empty string and tokenize no token.
\<close>

theorem normalize_total_on_strings:
  "normalizeText_call (V_string s) = Inr (normalizeText s)
   \<and> tokenize_call (V_string s) = Inr (tokenize s)
   \<and> ((\<exists>t. normalizeText_call v = Inr t) \<longleftrightarrow> (\<exists>u. v = V_string u))
   \<and> ((\<exists>ts. tokenize_call v = Inr ts) \<longleftrightarrow> (\<exists>u. v = V_string u))
   \<and> ((\<forall>u. v \<noteq> V_string u) \<longleftrightarrow>
          normalizeText_call v = Inl TypeError \<and> tokenize_call v = Inl TypeError)
   \<and> list_all (\<lambda>c. is_lower_alnum c \<or> is_space c) (normalizeText s)
   \<and> normalizeText (normalizeText s) = normalizeText s
   \<and> list_all (\<lambda>t. t \<noteq> [] \<and> t \<notin> set STOPWORDS \<and> list_all is_lower_alnum t) (tokenize s)
   \<and> normalizeText_call (V_string []) = Inr []
   \<and> tokenize_call (V_string []) = Inr []"
proof -
  have a: "normalizeText_call (V_string s) = Inr (normalizeText s)"
    by (simp add: normalizeText_call_def)
  have b: "tokenize_call (V_string s) = Inr (tokenize s)"
    by (simp add: tokenize_call_def normalizeText_call_def tokenize_def)
  have r1: "(\<exists>t. normalizeText_call v = Inr t) \<longleftrightarrow> (\<exists>u. v = V_string u)"
    by (cases v) (simp_all add: normalizeText_call_def)
  have r2: "(\<exists>ts. tokenize_call v = Inr ts) \<longleftrightarrow> (\<exists>u. v = V_string u)"
    by (cases v) (simp_all add: tokenize_call_def normalizeText_call_def)
  have r3: "(\<forall>u. v \<noteq> V_string u) \<longleftrightarrow>
          normalizeText_call v = Inl TypeError \<and> tokenize_call v = Inl TypeError"
    by (cases v) (simp_all add: tokenize_call_def normalizeText_call_def)
  have c: "normalizeText_call (V_string []) = Inr []"
    by (simp add: normalizeText_call_def normalizeText_empty)
  have d: "tokenize_call (V_string []) = Inr []"
    by (simp add: tokenize_call_def normalizeText_call_def normalizeText_empty split_ws_def)
  show ?thesis
    by (intro conjI, fact a, fact b, fact r1, fact r2, fact r3, fact normalizeText_chars,
        fact normalizeText_idem, fact tokenize_tokens, fact c, fact d)
qed

subsection \<open>Reviews grouped by product\<close>

lemma group_reviews_fold:
  "fold group_step rs m0 k
   = (case m0 k of
        None \<Rightarrow> (if filter (\<lambda>r. r_product_id r = k) rs = [] then None
                 else Some (filter (\<lambda>r. r_product_id r = k) rs))
      | Some old \<Rightarrow> Some (old @ filter (\<lambda>r. r_product_id r = k) rs))"
proof (induction rs arbitrary: m0)
  case Nil
  then show ?case by (simp split: option.splits)
next
  case (Cons r rs)
  have "fold group_step (r # rs) m0 k = fold group_step rs (group_step r m0) k"
    by simp
  also have "\<dots> = (case group_step r m0 k of
        None \<Rightarrow> (if filter (\<lambda>r. r_product_id r = k) rs = [] then None
                 else Some (filter (\<lambda>r. r_product_id r = k) rs))
      | Some old \<Rightarrow> Some (old @ filter (\<lambda>r. r_product_id r = k) rs))"
    by (rule Cons.IH)
  also have "\<dots> = (case m0 k of
        None \<Rightarrow> (if filter (\<lambda>r. r_product_id r = k) (r # rs) = [] then None
                 else Some (filter (\<lambda>r. r_product_id r = k) (r # rs)))
      | Some old \<Rightarrow> Some (old @ filter (\<lambda>r. r_product_id r = k) (r # rs)))"
    by (cases "r_product_id r = k") (auto simp: group_step_def split: option.splits)
  finally show ?case .
qed

lemma group_reviews_lookup:
  "group_reviews rs k =
     (if filter (\<lambda>r. r_product_id r = k) rs = [] then None
      else Some (filter (\<lambda>r. r_product_id r = k) rs))"
  by (simp add: group_reviews_def group_reviews_fold)

text \<open>
  C10: in a snapshot built by a load, a product identifier under which no review is
  grouped, whether or not a product carries it, gets the zero-valued summary.
\<close>

theorem getReviewSummary_no_reviews:
  assumes "productId \<notin> r_product_id ` set rs"
  shows "getReviewSummary (build_cache ps rs pols) productId =
           \<lparr>average_rating = Fin 0, total_reviews = 0,
            sentiment_counts = \<lparr>positive = 0, neutral = 0, negative = 0\<rparr>, themes = []\<rparr>"
proof -
  have "filter (\<lambda>r. r_product_id r = productId) rs = []"
    using assms by (auto simp: filter_empty_conv)
  then have "reviewsByProduct (build_cache ps rs pols) productId = None"
    by (simp add: build_cache_def group_reviews_lookup)
  then show ?thesis
    by (simp add: getReviewSummary_def summarizeReviews_def)
qed

theorem getReviewSummary_no_reviews_witness:
  "''ghost'' \<notin> r_product_id `
      set [\<lparr>r_product_id = ''p1'', r_rating = Fin 5, r_text = ''great'', r_date = ''2024-01-01''\<rparr>]
   \<and> getReviewSummary
        (build_cache []
           [\<lparr>r_product_id = ''p1'', r_rating = Fin 5, r_text = ''great'', r_date = ''2024-01-01''\<rparr>]
           []) ''ghost'' =
       \<lparr>average_rating = Fin 0, total_reviews = 0,
        sentiment_counts = \<lparr>positive = 0, neutral = 0, negative = 0\<rparr>, themes = []\<rparr>"
proof -
  have h: "''ghost'' \<notin> r_product_id `
      set [\<lparr>r_product_id = ''p1'', r_rating = Fin 5, r_text = ''great'', r_date = ''2024-01-01''\<rparr>]"
    by simp
  show ?thesis
    using h getReviewSummary_no_reviews [OF h, of "[]" "[]"] by simp
qed

subsection \<open>Loading\<close>

lemma Number_str_abc: "Number_str ''abc'' = NaN"
  by (simp add: Number_str_def trim_def is_space_def parse_non_decimal_def
      parse_unsigned_decimal_def is_digit_def)

lemma Number_str_empty: "Number_str [] = Fin 0"
  by (simp add: Number_str_def trim_def)

text \<open>
  C1, as stated: a non-numeric numeric field makes \<^verbatim>\<open>load()\<close> report a parse error.
  It does not: with the price \<^verbatim>\<open>abc\<close> in the only product row, \<^verbatim>\<open>load()\<close>
  returns normally and installs a snapshot whose product has the price \<open>NaN\<close>.
\<close>

theorem load_non_numeric_price_accepted:
  "load 1000
     \<lparr>products_csv = Some \<lparr>mtimeMs = 5, csv_rows = Inr
        [\<lparr>row_id = ''p1'', row_name = ''Laptop'', row_brand = ''Acme'', row_category = ''laptop'',
          row_price = ''abc'', row_description = ''thin'', row_stock = ''3'', row_rating = ''4''\<rparr>]\<rparr>,
      reviews_csv = Some \<lparr>mtimeMs = 5, csv_rows = Inr []\<rparr>,
      policies_csv = Some \<lparr>mtimeMs = 5, csv_rows = Inr []\<rparr>\<rparr>
     store_init
   = Inr \<lparr>cache = Some (build_cache
        [\<lparr>p_id = ''p1'', p_name = ''Laptop'', p_brand = ''Acme'', p_category = ''laptop'',
          p_price = NaN, p_description = ''thin'', p_stock = Fin 3, p_rating = Fin 4\<rparr>] [] []),
      lastLoaded = 1000, lastModified = 5\<rparr>"
  by (simp add: load_def loadCsv_def product_of_row_def parsePolicies_def getLastModified_def
      file_mtime_def Number_str_abc Number_str_examples)

text \<open>
  C1, amended: whenever the three sources can be read and parsed as CSV, \<^verbatim>\<open>load()\<close>
  reports no error, whatever the numeric fields hold: it installs a snapshot in which
  every numeric field (product price, stock and rating, review rating, policy
  timeframe) is \<^verbatim>\<open>Number\<close> of the source text, which is \<open>NaN\<close> for a non-numeric text
  such as \<^verbatim>\<open>abc\<close> and \<open>0\<close> for the empty text.
\<close>

theorem load_coerces_numeric_fields:
  assumes "loadCsv (products_csv fs) = Inr prows"
    and "loadCsv (reviews_csv fs) = Inr rrows"
    and "loadCsv (policies_csv fs) = Inr polrows"
  shows "\<exists>c. load now fs st =
               Inr \<lparr>cache = Some c, lastLoaded = now, lastModified = getLastModified fs\<rparr>
           \<and> map p_price (products c) = map (\<lambda>row. Number_str (row_price row)) prows
           \<and> map p_stock (products c) = map (\<lambda>row. Number_str (row_stock row)) prows
           \<and> map p_rating (products c) = map (\<lambda>row. Number_str (row_rating row)) prows
           \<and> map r_rating (reviews c) = map (\<lambda>row. Number_str (row_review_rating row)) rrows
           \<and> map pol_timeframe (policies c) = map (\<lambda>row. Number_str (row_timeframe row)) polrows
           \<and> Number_str ''abc'' = NaN \<and> Number_str [] = Fin 0"
  using assms
  by (simp add: load_def build_cache_def product_of_row_def[abs_def] review_of_row_def[abs_def]
      parsePolicies_def comp_def Number_str_abc Number_str_empty)

theorem load_coerces_numeric_fields_witness:
  "loadCsv (products_csv (example_fs 5)) = Inr
        [\<lparr>row_id = ''p1'', row_name = ''Laptop'', row_brand = ''Acme'',
          row_category = ''laptop'', row_price = ''999.5'', row_description = ''thin'',
          row_stock = ''3'', row_rating = ''4''\<rparr>]
   \<and> (\<exists>c. load 1000 (example_fs 5) store_init =
             Inr \<lparr>cache = Some c, lastLoaded = 1000, lastModified = 5\<rparr>
          \<and> map p_price (products c) = [Fin (1999 / 2)]
          \<and> map r_rating (reviews c) = [Fin 5]
          \<and> map pol_timeframe (policies c) = [Fin 30])"
proof -
  have p: "loadCsv (products_csv (example_fs 5)) = Inr
        [\<lparr>row_id = ''p1'', row_name = ''Laptop'', row_brand = ''Acme'',
          row_category = ''laptop'', row_price = ''999.5'', row_description = ''thin'',
          row_stock = ''3'', row_rating = ''4''\<rparr>]"
    by (simp add: example_fs_def loadCsv_def)
  have r: "loadCsv (reviews_csv (example_fs 5)) = Inr
        [\<lparr>row_product_id = ''p1'', row_review_rating = ''5'', row_text = ''great'',
          row_date = ''2024-01-01''\<rparr>]"
    by (simp add: example_fs_def loadCsv_def)
  have q: "loadCsv (policies_csv (example_fs 5)) = Inr
        [\<lparr>row_policy_type = ''returns'', row_policy_description = ''Laptop Return Policy'',
          row_conditions = ''unopened|receipt'', row_timeframe = ''30''\<rparr>]"
    by (simp add: example_fs_def loadCsv_def)
  have m: "getLastModified (example_fs 5) = 5"
    by (simp add: example_fs_def getLastModified_def file_mtime_def)
  have n: "Number_str ''999.5'' = Fin (1999 / 2) \<and> Number_str ''5'' = Fin 5
           \<and> Number_str ''30'' = Fin 30"
    by (simp add: Number_str_examples)
  show ?thesis
    using load_coerces_numeric_fields [OF p r q, of 1000 store_init] p
    by (auto simp: m n)
qed

subsection \<open>Freshness\<close>

lemma ensureFresh_ok_cache:
  assumes "outcome (ensureFresh now nl fs st) = Inr st1"
  shows "cache st1 \<noteq> None"
  using assms
  by (auto simp: ensureFresh_def load_def Let_def split: if_splits sum.splits)

text \<open>Once \<^verbatim>\<open>ensureFresh()\<close> has returned there is a snapshot, and an entry point
  returns what its body computes on it.\<close>

lemma with_fresh_returns:
  assumes "outcome (ensureFresh now now_load fs st) = Inr st1"
  shows "\<exists>c. cache st1 = Some c \<and> with_fresh now now_load fs st body = (body st1 c, st1)"
  using assms ensureFresh_ok_cache [OF assms] by (auto simp: with_fresh_def)

lemma with_fresh_throws:
  assumes "outcome (ensureFresh now now_load fs st) = Inl e"
  shows "with_fresh now now_load fs st body = (Inl e, st)"
  using assms by (simp add: with_fresh_def)

text \<open>
  C6: after a call of \<^verbatim>\<open>ensureFresh\<close> that returned, a second call no more than
  30000 ms after the last load looks at no file and calls no load, whatever the files
  have become, so the two calls load at most once; and a call that finds a snapshot and
  no newer modification time calls no load and leaves the store, its snapshot included,
  as it was.
\<close>

theorem ensureFresh_idempotent_in_window:
  assumes first: "outcome (ensureFresh now1 load1 fs1 st) = Inr st1"
    and window: "now2 - lastLoaded st1 \<le> 30000"
  shows "ensureFresh now2 load2 fs2 st1 =
           \<lparr>checked_files = False, called_load = False, outcome = Inr st1\<rparr>
         \<and> (if called_load (ensureFresh now1 load1 fs1 st) then 1 else 0)
           + (if called_load (ensureFresh now2 load2 fs2 st1) then 1 else 0) \<le> (1::nat)
         \<and> (cache st \<noteq> None \<and> getLastModified fs1 \<le> lastModified st \<longrightarrow>
              \<not> called_load (ensureFresh now1 load1 fs1 st) \<and> st1 = st)"
proof -
  have c: "cache st1 \<noteq> None"
    using first by (rule ensureFresh_ok_cache)
  have second: "ensureFresh now2 load2 fs2 st1 =
           \<lparr>checked_files = False, called_load = False, outcome = Inr st1\<rparr>"
    using c window by (simp add: ensureFresh_def)
  have third: "cache st \<noteq> None \<and> getLastModified fs1 \<le> lastModified st \<longrightarrow>
              \<not> called_load (ensureFresh now1 load1 fs1 st) \<and> st1 = st"
    using first by (auto simp: ensureFresh_def Let_def split: if_splits)
  show ?thesis
    using second third by simp
qed

theorem ensureFresh_idempotent_in_window_witness:
  "outcome (ensureFresh 1000 1002 (example_fs 5) store_init) = Inr example_store
   \<and> 20000 - lastLoaded example_store \<le> 30000
   \<and> called_load (ensureFresh 1000 1002 (example_fs 5) store_init)
   \<and> ensureFresh 20000 20001 (example_fs 9) example_store =
        \<lparr>checked_files = False, called_load = False, outcome = Inr example_store\<rparr>"
proof -
  have n: "Number_str ''999.5'' = Fin (1999 / 2) \<and> Number_str ''5'' = Fin 5
           \<and> Number_str ''30'' = Fin 30 \<and> Number_str ''3'' = Fin 3 \<and> Number_str ''4'' = Fin 4"
    by (simp add: Number_str_examples)
  have l: "load 1002 (example_fs 5) store_init = Inr example_store"
    by (simp add: load_def loadCsv_def example_fs_def example_store_def product_of_row_def
        review_of_row_def parsePolicies_def getLastModified_def file_mtime_def n)
  have h1: "outcome (ensureFresh 1000 1002 (example_fs 5) store_init) = Inr example_store"
    by (simp add: ensureFresh_def store_init_def l [unfolded store_init_def])
  have h2: "20000 - lastLoaded example_store \<le> 30000"
    by (simp add: example_store_def)
  have h3: "called_load (ensureFresh 1000 1002 (example_fs 5) store_init)"
    by (simp add: ensureFresh_def store_init_def)
  show ?thesis
    using ensureFresh_idempotent_in_window [OF h1 h2, of 20001 "example_fs 9"] h1 h2 h3
    by simp
qed

subsection \<open>Policies\<close>

lemma policy_map_strings:
  "(\<exists>name. CATEGORY_POLICY_MAP category = Str name) \<longleftrightarrow>
     category \<in> {''laptop'', ''smartphone'', ''smart_tv'', ''speaker''}"
  by (auto simp: CATEGORY_POLICY_MAP_def)

lemma getPolicyByCategory_find:
  "getPolicyByCategory c category =
      (case CATEGORY_POLICY_MAP category of
         Str name \<Rightarrow> find (\<lambda>p. pol_description p = name) (policies c)
       | _ \<Rightarrow> None)"
  by (cases "CATEGORY_POLICY_MAP category")
     (auto simp: getPolicyByCategory_def find_None_iff)

text \<open>
  C8: the policy for a category is the first policy whose description is the string the
  fixed table gives for the category, and none when the table gives no string (only
  \<^verbatim>\<open>laptop\<close>, \<^verbatim>\<open>smartphone\<close>, \<^verbatim>\<open>smart_tv\<close> and \<^verbatim>\<open>speaker\<close> have one) or no
  policy carries that description; the policy for a product is the policy for its
  category, and none when the identifier resolves to no product. Neither lookup
  throws: once \<^verbatim>\<open>ensureFresh()\<close> has returned, both entry points return a value.
\<close>

theorem policy_lookup_first_match:
  "getPolicyByCategory c category =
      (case CATEGORY_POLICY_MAP category of
         Str name \<Rightarrow> find (\<lambda>p. pol_description p = name) (policies c)
       | _ \<Rightarrow> None)
   \<and> getPolicyForProduct c productId =
      (case productById c productId of
         None \<Rightarrow> None
       | Some product \<Rightarrow> getPolicyByCategory c (p_category product))
   \<and> (getPolicyByCategory c category = Some p \<longleftrightarrow>
        (\<exists>name i. CATEGORY_POLICY_MAP category = Str name \<and> i < length (policies c)
           \<and> policies c ! i = p \<and> pol_description p = name
           \<and> (\<forall>j<i. pol_description (policies c ! j) \<noteq> name)))
   \<and> (getPolicyByCategory c category = None \<longleftrightarrow>
        (\<forall>name. CATEGORY_POLICY_MAP category = Str name \<longrightarrow>
                name \<notin> pol_description ` set (policies c)))
   \<and> ((\<exists>name. CATEGORY_POLICY_MAP category = Str name) \<longleftrightarrow>
        category \<in> {''laptop'', ''smartphone'', ''smart_tv'', ''speaker''})
   \<and> CATEGORY_POLICY_MAP ''laptop'' = Str ''Laptop Return Policy''
   \<and> (outcome (ensureFresh now now_load fs st) = Inr st' \<longrightarrow>
        (\<exists>c'. cache st' = Some c'
           \<and> api_getPolicyByCategory now now_load fs category st
               = (Inr (getPolicyByCategory c' category), st')
           \<and> api_getPolicyForProduct now now_load fs productId st
               = (Inr (getPolicyForProduct c' productId), st')))"
proof -
  have a: "getPolicyByCategory c category =
      (case CATEGORY_POLICY_MAP category of
         Str name \<Rightarrow> find (\<lambda>p. pol_description p = name) (policies c)
       | _ \<Rightarrow> None)"
    by (rule getPolicyByCategory_find)
  have b: "getPolicyForProduct c productId =
      (case productById c productId of
         None \<Rightarrow> None
       | Some product \<Rightarrow> getPolicyByCategory c (p_category product))"
    by (simp add: getPolicyForProduct_def getPolicyByCategory_def split: option.splits)
  have d: "getPolicyByCategory c category = Some p \<longleftrightarrow>
        (\<exists>name i. CATEGORY_POLICY_MAP category = Str name \<and> i < length (policies c)
           \<and> policies c ! i = p \<and> pol_description p = name
           \<and> (\<forall>j<i. pol_description (policies c ! j) \<noteq> name))"
    by (cases "CATEGORY_POLICY_MAP category") (auto simp: a find_Some_iff)
  have e: "getPolicyByCategory c category = None \<longleftrightarrow>
        (\<forall>name. CATEGORY_POLICY_MAP category = Str name \<longrightarrow>
                name \<notin> pol_description ` set (policies c))"
    by (cases "CATEGORY_POLICY_MAP category") (auto simp: a find_None_iff)
  have f: "CATEGORY_POLICY_MAP ''laptop'' = Str ''Laptop Return Policy''"
    by (simp add: CATEGORY_POLICY_MAP_def)
  have g: "outcome (ensureFresh now now_load fs st) = Inr st' \<longrightarrow>
        (\<exists>c'. cache st' = Some c'
           \<and> api_getPolicyByCategory now now_load fs category st
               = (Inr (getPolicyByCategory c' category), st')
           \<and> api_getPolicyForProduct now now_load fs productId st
               = (Inr (getPolicyForProduct c' productId), st'))"
  proof
    assume ok: "outcome (ensureFresh now now_load fs st) = Inr st'"
    then obtain c' where "cache st' = Some c'"
      using ensureFresh_ok_cache by blast
    then show "\<exists>c'. cache st' = Some c'
           \<and> api_getPolicyByCategory now now_load fs category st
               = (Inr (getPolicyByCategory c' category), st')
           \<and> api_getPolicyForProduct now now_load fs productId st
               = (Inr (getPolicyForProduct c' productId), st')"
      using ok by (simp add: api_getPolicyByCategory_def api_getPolicyForProduct_def with_fresh_def)
  qed
  show ?thesis
    by (intro conjI, fact a, fact b, fact d, fact e, fact policy_map_strings, fact f, fact g)
qed

theorem policy_lookup_first_match_witness:
  "getPolicyByCategory (build_cache [] [] example_policies) ''laptop'' =
     Some \<lparr>pol_policy_type = ''returns'', pol_description = ''Laptop Return Policy'',
           pol_conditions = [''unopened'', ''receipt''], pol_timeframe = Fin 30\<rparr>
   \<and> getPolicyByCategory (build_cache [] [] example_policies) ''speaker'' = None
   \<and> getPolicyByCategory (build_cache [] [] example_policies) ''tablet'' = None
   \<and> getPolicyByCategory (build_cache [] [] example_policies) ''toString'' = None"
  using policy_lookup_first_match [of "build_cache [] [] example_policies" "''laptop''"]
  by (simp add: example_policies_def build_cache_def CATEGORY_POLICY_MAP_def
      object_prototype_keys_def getPolicyByCategory_def)


subsection \<open>Sorting\<close>

text \<open>
  Where the comparator agrees with the order of a key, \<^verbatim>\<open>sort\<close> is the stable sort
  on that key.
\<close>

lemma js_insert_insort_key:
  fixes k :: "'a \<Rightarrow> 'k::linorder"
  assumes "\<And>y. y \<in> set ys \<Longrightarrow> js_gt (cmp x y) (Fin 0) = (k y < k x)"
  shows "js_insert cmp x ys = insort_key k x ys"
  using assms by (induction ys) (auto simp: not_le)

lemma js_sort_sort_key:
  fixes k :: "'a \<Rightarrow> 'k::linorder"
  assumes "\<And>x y. x \<in> set xs \<Longrightarrow> y \<in> set xs \<Longrightarrow> js_gt (cmp x y) (Fin 0) = (k y < k x)"
  shows "js_sort cmp xs = sort_key k xs"
  using assms
proof (induction xs)
  case Nil
  then show ?case by (simp add: js_sort_def)
next
  case (Cons x xs)
  have IH: "js_sort cmp xs = sort_key k xs"
    using Cons by simp
  have "js_sort cmp (x # xs) = js_insert cmp x (js_sort cmp xs)"
    by (simp add: js_sort_def)
  also have "\<dots> = js_insert cmp x (sort_key k xs)"
    by (simp add: IH)
  also have "\<dots> = insort_key k x (sort_key k xs)"
    by (rule js_insert_insort_key) (simp add: Cons.prems)
  finally show ?case by simp
qed

lemma js_insert_map:
  "js_insert cmp (g x) (map g ys) = map g (js_insert (\<lambda>a b. cmp (g a) (g b)) x ys)"
  by (induction ys) auto

lemma js_sort_map:
  "js_sort cmp (map g xs) = map g (js_sort (\<lambda>a b. cmp (g a) (g b)) xs)"
  by (induction xs) (auto simp: js_sort_def js_insert_map)


lemma mset_js_insert: "mset (js_insert cmp x ys) = add_mset x (mset ys)"
  by (induction ys) simp_all

lemma mset_js_sort: "mset (js_sort cmp xs) = mset xs"
  by (induction xs) (simp_all add: js_sort_def mset_js_insert)

lemma set_js_sort: "set (js_sort cmp xs) = set xs"
  using mset_js_sort [of cmp xs] by (metis set_mset_mset)

lemma sort_key_descending_stable:
  fixes s :: "'a \<Rightarrow> 'k::{linordered_idom}"
  shows "mset (sort_key (\<lambda>x. - s x) xs) = mset xs
     \<and> sorted_wrt (\<lambda>a b. s b \<le> s a) (sort_key (\<lambda>x. - s x) xs)
     \<and> (\<forall>v. filter (\<lambda>x. s x = v) (sort_key (\<lambda>x. - s x) xs) = filter (\<lambda>x. s x = v) xs)"
proof -
  have "sorted (map (\<lambda>x. - s x) (sort_key (\<lambda>x. - s x) xs))"
    by (rule sorted_sort_key)
  then have a: "sorted_wrt (\<lambda>a b. s b \<le> s a) (sort_key (\<lambda>x. - s x) xs)"
    by (simp add: sorted_wrt_map)
  have b: "\<And>v. filter (\<lambda>x. s x = v) (sort_key (\<lambda>x. - s x) xs) = filter (\<lambda>x. s x = v) xs"
  proof -
    fix v
    have "filter (\<lambda>x. - s x = - v) (sort_key (\<lambda>x. - s x) xs) = filter (\<lambda>x. - s x = - v) xs"
      by (rule sort_key_stable)
    then show "filter (\<lambda>x. s x = v) (sort_key (\<lambda>x. - s x) xs) = filter (\<lambda>x. s x = v) xs"
      by simp
  qed
  show ?thesis
    using a b by simp
qed


subsection \<open>Rounding to two decimals\<close>

lemma round_double_0: "round_double 0 = Fin 0"
  by (simp add: round_double_def)

lemma toFixed2_of_int:
  assumes "\<bar>n\<bar> < 2 ^ 53"
  shows "toFixed2 (Fin (of_int n)) = Fin (of_int n)"
proof -
  have small: "\<not> 10 ^ 21 \<le> \<bar>of_int n :: rat\<bar>"
  proof -
    have "\<bar>n\<bar> < 10 ^ 21"
      using assms by simp
    then have "(of_int \<bar>n\<bar> :: rat) < of_int (10 ^ 21)"
      by (simp only: of_int_less_iff)
    then show ?thesis
      by simp
  qed
  have "\<lfloor>(of_int (100 * \<bar>n\<bar>) :: rat) + 1 / 2\<rfloor> = 100 * \<bar>n\<bar>"
    by (rule floor_unique) simp_all
  then have "\<lfloor>100 * \<bar>of_int n :: rat\<bar> + 1 / 2\<rfloor> = 100 * \<bar>n\<bar>"
    by simp
  then have "sgn (of_int n :: rat) * of_int \<lfloor>100 * \<bar>of_int n :: rat\<bar> + 1 / 2\<rfloor> / 100
             = sgn (of_int n) * \<bar>of_int n\<bar>"
    by simp
  also have "\<dots> = (of_int n :: rat)"
    by (simp add: sgn_mult_abs)
  finally have v: "sgn (of_int n :: rat) * of_int \<lfloor>100 * \<bar>of_int n :: rat\<bar> + 1 / 2\<rfloor> / 100
                   = of_int n" .
  have "toFixed2 (Fin (of_int n)) = round_double (of_int n)"
    unfolding toFixed2_def jsnum.case if_not_P [OF small] v ..
  then show ?thesis
    by (simp only: round_double_of_int [OF assms])
qed

lemma toFixed2_3: "toFixed2 (Fin 3) = Fin 3"
  using toFixed2_of_int [of 3] by simp

text \<open>Below \<open>10^21\<close>, \<^verbatim>\<open>Number(x.toFixed(2))\<close> is the double nearest to a hundredth that
  lies within half a hundredth of \<open>x\<close>.\<close>

lemma toFixed2_nearest_hundredth:
  assumes "\<bar>a\<bar> < 10 ^ 21"
  shows "\<exists>n::int. toFixed2 (Fin a) = round_double (of_int n / 100)
                  \<and> \<bar>of_int n / 100 - a\<bar> \<le> 1 / 200"
proof -
  define b where "b = \<bar>a\<bar>"
  define m where "m = \<lfloor>100 * b + 1 / 2\<rfloor>"
  have lo: "of_int m \<le> 100 * b + 1 / 2"
    unfolding m_def by (rule of_int_floor_le)
  have hi: "100 * b + 1 / 2 < of_int m + 1"
    unfolding m_def by linarith
  have "of_int m / 100 - b \<le> 1 / 200" and "- (of_int m / 100 - b) \<le> 1 / 200"
    using lo hi by simp_all
  then have "\<bar>of_int m / 100 - b\<bar> \<le> 1 / 200"
    by (simp only: abs_le_iff)
  then have close: "\<bar>of_int m / 100 - \<bar>a\<bar>\<bar> \<le> 1 / 200"
    by (simp only: b_def)
  have val: "toFixed2 (Fin a) = round_double (sgn a * of_int m / 100)"
    using assms by (simp add: toFixed2_def m_def b_def)
  show ?thesis
  proof (cases "0 \<le> a")
    case True
    then have "sgn a * of_int m / 100 = of_int (if a = 0 then 0 else m) / 100"
      by (simp add: sgn_if)
    moreover have "\<bar>of_int (if a = 0 then 0 else m) / 100 - a\<bar> \<le> 1 / 200"
      using close True by auto
    ultimately show ?thesis
      using val by (metis (no_types))
  next
    case False
    then have "sgn a * of_int m / 100 = of_int (- m) / 100"
      by (simp add: sgn_if)
    moreover have "\<bar>of_int (- m) / 100 - a\<bar> \<le> 1 / 200"
    proof -
      have na: "\<bar>a\<bar> = - a"
        using False by simp
      have "of_int (- m) / 100 - a = - (of_int m / 100 - \<bar>a\<bar>)"
        by (simp add: na)
      then have "\<bar>of_int (- m) / 100 - a\<bar> = \<bar>of_int m / 100 - \<bar>a\<bar>\<bar>"
        by (simp only: abs_minus_cancel)
      then show ?thesis
        using close by (simp only:)
    qed
    ultimately show ?thesis
      using val by (metis (no_types))
  qed
qed


subsection \<open>Review summarizer\<close>

lemma fold_step_positive:
  "acc_positive (fold summarize_step rs acc) =
     acc_positive acc + length (filter (\<lambda>r. bucket_of r = Positive) rs)"
  by (induction rs arbitrary: acc) (simp_all add: summarize_step_def bucket_of_def Let_def)

lemma fold_step_negative:
  "acc_negative (fold summarize_step rs acc) =
     acc_negative acc + length (filter (\<lambda>r. bucket_of r = Negative) rs)"
  by (induction rs arbitrary: acc) (simp_all add: summarize_step_def bucket_of_def Let_def)

lemma fold_step_neutral:
  "acc_neutral (fold summarize_step rs acc) =
     acc_neutral acc + length (filter (\<lambda>r. bucket_of r = Neutral) rs)"
  by (induction rs arbitrary: acc) (simp_all add: summarize_step_def bucket_of_def Let_def)

lemma fold_step_wordCounts:
  "acc_wordCounts (fold summarize_step rs acc) =
     fold count_token (review_tokens rs) (acc_wordCounts acc)"
  by (induction rs arbitrary: acc) (simp_all add: summarize_step_def review_tokens_def Let_def)

lemma bucket_partition:
  "length (filter (\<lambda>r. bucket_of r = Positive) rs)
   + length (filter (\<lambda>r. bucket_of r = Negative) rs)
   + length (filter (\<lambda>r. bucket_of r = Neutral) rs) = length rs"
proof (induction rs)
  case Nil
  then show ?case by simp
next
  case (Cons r rs)
  then show ?case by (cases "bucket_of r") simp_all
qed

lemma count_token_map:
  assumes "distinct ks"
  shows "count_token t (map (\<lambda>w. (w, f w)) ks) =
         map (\<lambda>w. (w, if w = t then f w + 1 else f w)) ks @ (if t \<in> set ks then [] else [(t, 1)])"
  using assms by (induction ks) auto

lemma first_seen_snoc:
  "first_seen (us @ [t]) = (if t \<in> set us then first_seen us else first_seen us @ [t])"
  by (simp add: first_seen_def)

lemma distinct_first_seen: "distinct (first_seen us)"
  by (simp add: first_seen_def)

lemma set_first_seen: "set (first_seen us) = set us"
  by (simp add: first_seen_def)

lemma count_token_frequencies:
  "count_token t (token_frequencies us) = token_frequencies (us @ [t])"
proof -
  have "count_token t (token_frequencies us) =
        map (\<lambda>w. (w, if w = t then count_list us w + 1 else count_list us w)) (first_seen us)
        @ (if t \<in> set us then [] else [(t, 1)])"
    unfolding token_frequencies_def
    by (simp add: count_token_map [OF distinct_first_seen] set_first_seen)
  also have "\<dots> = token_frequencies (us @ [t])"
    by (auto simp: token_frequencies_def first_seen_snoc count_list_0_iff)
  finally show ?thesis .
qed

lemma fold_count_token:
  "fold count_token ts (token_frequencies us) = token_frequencies (us @ ts)"
proof (induction ts arbitrary: us)
  case Nil
  then show ?case by simp
next
  case (Cons t ts)
  have "fold count_token (t # ts) (token_frequencies us) =
        fold count_token ts (token_frequencies (us @ [t]))"
    by (simp add: count_token_frequencies)
  also have "\<dots> = token_frequencies ((us @ [t]) @ ts)"
    by (rule Cons.IH)
  finally show ?case by simp
qed

lemma wordCounts_frequencies:
  "acc_wordCounts (fold summarize_step rs summarize_init) = token_frequencies (review_tokens rs)"
proof -
  have "token_frequencies [] = []"
    by (simp add: token_frequencies_def first_seen_def)
  then have "fold count_token (review_tokens rs) [] = token_frequencies ([] @ review_tokens rs)"
    using fold_count_token [of "review_tokens rs" "[]"] by simp
  then show ?thesis
    by (simp add: fold_step_wordCounts summarize_init_def)
qed


lemma js_sort_count_desc:
  "js_sort count_desc es = sort_key (\<lambda>e. - int (snd e)) es"
  by (rule js_sort_sort_key) (simp add: count_desc_def js_gt_sub_of_nat)


lemma tokens_ex1: "tokenize ''great and fast'' = [''great'', ''fast'']" by code_simp
lemma tokens_ex2: "tokenize ''broken and slow'' = [''broken'', ''slow'']" by code_simp
lemma tokens_ex3: "tokenize ''ok product'' = [''ok'', ''product'']" by code_simp

lemma sent_ex1: "scoreSentiment ''great and fast'' = 2"
  by (simp add: scoreSentiment_def tokens_ex1 SENTIMENT_positive_def SENTIMENT_negative_def)
lemma sent_ex2: "scoreSentiment ''broken and slow'' = - 2"
  by (simp add: scoreSentiment_def tokens_ex2 SENTIMENT_positive_def SENTIMENT_negative_def)
lemma sent_ex3: "scoreSentiment ''ok product'' = 0"
  by (simp add: scoreSentiment_def tokens_ex3 SENTIMENT_positive_def SENTIMENT_negative_def)


text \<open>
  C2: the three sentiment counts of a summary are the numbers of reviews in the
  positive, negative and neutral bucket, where a review is positive if its rating is
  \<open>\<ge> 4\<close> or its sentiment score \<open>> 0\<close>, else negative if its rating is \<open>\<le> 2\<close> or its
  score \<open>< 0\<close>, else neutral; the counts add up to the number of reviews, so each review
  is counted exactly once. For ratings 5, 1, 3 with the texts of the example the
  average rating is 3 and each bucket holds one review.
\<close>

theorem summarize_buckets:
  "positive (sentiment_counts (summarizeReviews rs)) = length (filter (\<lambda>r. bucket_of r = Positive) rs)
   \<and> negative (sentiment_counts (summarizeReviews rs)) = length (filter (\<lambda>r. bucket_of r = Negative) rs)
   \<and> neutral (sentiment_counts (summarizeReviews rs)) = length (filter (\<lambda>r. bucket_of r = Neutral) rs)
   \<and> positive (sentiment_counts (summarizeReviews rs)) + negative (sentiment_counts (summarizeReviews rs))
       + neutral (sentiment_counts (summarizeReviews rs)) = length rs
   \<and> total_reviews (summarizeReviews rs) = length rs
   \<and> average_rating (summarizeReviews
        [\<lparr>r_product_id = i1, r_rating = Fin 5, r_text = ''great and fast'', r_date = d1\<rparr>,
         \<lparr>r_product_id = i2, r_rating = Fin 1, r_text = ''broken and slow'', r_date = d2\<rparr>,
         \<lparr>r_product_id = i3, r_rating = Fin 3, r_text = ''ok product'', r_date = d3\<rparr>]) = Fin 3
   \<and> sentiment_counts (summarizeReviews
        [\<lparr>r_product_id = i1, r_rating = Fin 5, r_text = ''great and fast'', r_date = d1\<rparr>,
         \<lparr>r_product_id = i2, r_rating = Fin 1, r_text = ''broken and slow'', r_date = d2\<rparr>,
         \<lparr>r_product_id = i3, r_rating = Fin 3, r_text = ''ok product'', r_date = d3\<rparr>])
       = \<lparr>positive = 1, neutral = 1, negative = 1\<rparr>"
proof -
  have counts:
    "positive (sentiment_counts (summarizeReviews rs)) = length (filter (\<lambda>r. bucket_of r = Positive) rs)
     \<and> negative (sentiment_counts (summarizeReviews rs)) = length (filter (\<lambda>r. bucket_of r = Negative) rs)
     \<and> neutral (sentiment_counts (summarizeReviews rs)) = length (filter (\<lambda>r. bucket_of r = Neutral) rs)
     \<and> total_reviews (summarizeReviews rs) = length rs"
    by (cases "rs = []")
       (simp_all add: summarizeReviews_def Let_def fold_step_positive fold_step_negative
          fold_step_neutral summarize_init_def)
  have once: "positive (sentiment_counts (summarizeReviews rs)) + negative (sentiment_counts (summarizeReviews rs))
       + neutral (sentiment_counts (summarizeReviews rs)) = length rs"
    using counts bucket_partition [of rs] by simp
  have ex: "summarizeReviews
        [\<lparr>r_product_id = i1, r_rating = Fin 5, r_text = ''great and fast'', r_date = d1\<rparr>,
         \<lparr>r_product_id = i2, r_rating = Fin 1, r_text = ''broken and slow'', r_date = d2\<rparr>,
         \<lparr>r_product_id = i3, r_rating = Fin 3, r_text = ''ok product'', r_date = d3\<rparr>]
       = \<lparr>average_rating = Fin 3, total_reviews = 3,
          sentiment_counts = \<lparr>positive = 1, neutral = 1, negative = 1\<rparr>,
          themes = [(''great'', 1), (''fast'', 1), (''broken'', 1), (''slow'', 1), (''ok'', 1)]\<rparr>"
    by (simp add: summarizeReviews_def summarize_step_def summarize_init_def Let_def
        sent_ex1 sent_ex2 sent_ex3 tokens_ex1 tokens_ex2 tokens_ex3 js_ge_def js_or_zero_def
        js_of_nat_def toFixed2_3 js_sort_def count_desc_def js_sub_def js_gt_def
        round_double_numeral round_double_0)
  show ?thesis
    using counts once ex by simp
qed

text \<open>
  C9: the themes are the token frequencies over all review texts, tokens in the order
  in which each was first seen, sorted by descending count with a stable sort (equal
  counts keep the first-seen order, see \<open>sort_key_descending_stable\<close>) and cut to the
  first five, each a pair of word and count.
\<close>

theorem themes_top_five:
  "themes (summarizeReviews rs) =
     take 5 (sort_key (\<lambda>e. - int (snd e)) (token_frequencies (review_tokens rs)))"
proof (cases "rs = []")
  case True
  then show ?thesis
    by (simp add: summarizeReviews_def review_tokens_def token_frequencies_def first_seen_def)
next
  case False
  then show ?thesis
    by (simp add: summarizeReviews_def Let_def wordCounts_frequencies js_sort_count_desc)
qed


subsection \<open>Product search\<close>









subsection \<open>Recommendations\<close>

lemma index_products_fold:
  "fold (\<lambda>p m. m(p_id p \<mapsto> p)) ps m0 k = Some b \<Longrightarrow>
     (b \<in> set ps \<and> p_id b = k) \<or> m0 k = Some b"
proof (induction ps arbitrary: m0)
  case Nil
  then show ?case by simp
next
  case (Cons p ps)
  from Cons.prems have "fold (\<lambda>p m. m(p_id p \<mapsto> p)) ps (m0(p_id p \<mapsto> p)) k = Some b"
    by (simp only: fold_simps)
  from Cons.IH [OF this] show ?case
    by (auto split: if_splits)
qed

lemma index_products_member:
  assumes "index_products ps k = Some b"
  shows "b \<in> set ps \<and> p_id b = k"
  using index_products_fold [of ps Map.empty k b] assms
  by (simp add: index_products_def)

lemma finite_num_Fin: "is_finite_num x \<Longrightarrow> x = Fin (num_val x)"
  by (cases x) simp_all

lemma js_min_Fin: "js_min (Fin a) (Fin b) = Fin (min a b)"
  by (simp add: min_def)

lemma js_max_Fin: "js_max (Fin a) (Fin b) = Fin (max a b)"
  by (simp add: max_def)

lemma on_grid_scoreRecommendation: "on_grid (scoreRecommendation b p)"
  by (simp add: scoreRecommendation_def Let_def on_grid_js_add)

lemma js_or_zero_not_NaN: "x \<noteq> NaN \<Longrightarrow> js_or_zero x = x"
  by (cases x) (simp_all add: js_or_zero_def)

lemma scoreRecommendation_formula:
  "scoreRecommendation b p =
     spec_recommendation_score b (p\<lparr>p_rating := js_or_zero (p_rating p)\<rparr>)"
  by (simp add: scoreRecommendation_def spec_recommendation_score_def Let_def)

text \<open>With finite prices the price score is a finite number.\<close>

lemma priceScore_finite:
  "\<exists>t. js_sub (Fin 1)
         (js_min (js_div (js_abs (js_sub (Fin y) (Fin x))) (js_max (Fin x) (Fin 1))) (Fin 1))
       = Fin t"
proof -
  define d where "d = js_abs (js_sub (Fin y) (Fin x))"
  define m where "m = max x 1"
  have m1: "1 \<le> m"
    by (simp add: m_def)
  have d_cases: "d = PosInf \<or> (\<exists>r\<ge>0. d = Fin r)"
  proof (cases "round_double (y + - x)")
    case NaN
    then show ?thesis by (simp add: round_double_not_NaN)
  next
    case PosInf
    then show ?thesis by (simp add: d_def js_sub_def)
  next
    case NegInf
    then show ?thesis by (simp add: d_def js_sub_def)
  next
    case (Fin r)
    then have "d = Fin \<bar>r\<bar>" by (simp add: d_def js_sub_def)
    then show ?thesis by simp
  qed
  have q_cases: "js_div d (Fin m) = PosInf \<or> (\<exists>q\<ge>0. js_div d (Fin m) = Fin q)"
    using d_cases
  proof
    assume "d = PosInf"
    then show ?thesis using m1 by simp
  next
    assume "\<exists>r\<ge>0. d = Fin r"
    then obtain r where r: "0 \<le> r" "d = Fin r" by blast
    have "0 \<le> r / m" using r(1) m1 by simp
    then have "round_double (r / m) = PosInf \<or> (\<exists>q\<ge>0. round_double (r / m) = Fin q)"
      by (rule round_double_nonneg)
    moreover have "js_div d (Fin m) = round_double (r / m)"
      using m1 by (simp add: r(2))
    ultimately show ?thesis by simp
  qed
  have "\<exists>t. 0 \<le> t \<and> t \<le> 1 \<and> js_min (js_div d (Fin m)) (Fin 1) = Fin t"
    using q_cases
  proof
    assume "js_div d (Fin m) = PosInf"
    then have "js_min (js_div d (Fin m)) (Fin 1) = Fin 1" by simp
    then show ?thesis by simp
  next
    assume "\<exists>q\<ge>0. js_div d (Fin m) = Fin q"
    then obtain q where q: "0 \<le> q" "js_div d (Fin m) = Fin q" by blast
    have "js_min (js_div d (Fin m)) (Fin 1) = Fin (min q 1)"
      by (simp only: q(2) js_min_Fin)
    moreover have "0 \<le> min q 1" and "min q 1 \<le> 1"
      using q(1) by simp_all
    ultimately show ?thesis by blast
  qed
  then obtain t where t: "0 \<le> t" "t \<le> 1" "js_min (js_div d (Fin m)) (Fin 1) = Fin t"
    by blast
  have "\<bar>1 + - t\<bar> \<le> 1"
    using t(1,2) by simp
  then obtain s where "round_double (1 + - t) = Fin s"
    using round_double_small by blast
  then have "js_sub (Fin 1) (js_min (js_div d (Fin m)) (Fin 1)) = Fin s"
    by (simp add: t(3) js_sub_def)
  then show ?thesis
    unfolding d_def m_def js_max_Fin [symmetric] by (rule exI)
qed

lemma rating_part_not_NaN: "js_mul (js_or_zero r) (Fin 2) \<noteq> NaN"
  by (cases r) (simp_all add: js_or_zero_def round_double_not_NaN js_inf_of_sign_def)

lemma scoreRecommendation_not_NaN:
  assumes "is_finite_num (p_price b)" and "is_finite_num (p_price p)"
  shows "scoreRecommendation b p \<noteq> NaN"
proof -
  obtain x y where x: "p_price b = Fin x" and y: "p_price p = Fin y"
    using assms finite_num_Fin by blast
  obtain t where t: "js_sub (Fin 1)
         (js_min (js_div (js_abs (js_sub (Fin y) (Fin x))) (js_max (Fin x) (Fin 1))) (Fin 1))
       = Fin t"
    using priceScore_finite by blast
  have a: "js_add (js_mul (js_or_zero (p_rating p)) (Fin 2)) (Fin t) \<noteq> NaN"
    using rating_part_not_NaN by (rule js_add_not_NaN)
  have "js_add (js_add (js_mul (js_or_zero (p_rating p)) (Fin 2)) (Fin t)) (Fin c) \<noteq> NaN" for c
    using a by (rule js_add_not_NaN)
  then show ?thesis
    by (simp add: scoreRecommendation_def Let_def x y t del: js_min.simps js_max.simps js_div.simps)
qed

text \<open>Where no score is \<open>NaN\<close>, the comparator \<^verbatim>\<open>b.score - a.score\<close> sorts by descending
  score.\<close>

lemma js_sort_score_desc:
  assumes "\<And>p. p \<in> set xs \<Longrightarrow> s p \<noteq> NaN" and "\<And>p. on_grid (s p)"
  shows "js_sort (\<lambda>x y. js_sub (s y) (s x)) xs = sort_key (\<lambda>p. js_rank_desc (s p)) xs"
proof (rule js_sort_sort_key)
  fix x y
  assume "x \<in> set xs" and "y \<in> set xs"
  then have "s x \<noteq> NaN" and "s y \<noteq> NaN"
    using assms(1) by simp_all
  then have "js_gt (js_sub (s y) (s x)) (Fin 0) = (js_rank (s x) < js_rank (s y))"
    using js_gt_sub_rank [of "s y" "s x"] assms(2) by simp
  then show "js_gt (js_sub (s y) (s x)) (Fin 0) = (js_rank_desc (s y) < js_rank_desc (s x))"
    by (simp only: js_rank_desc_less)
qed

lemma sort_key_rank_desc:
  assumes "\<And>p. p \<in> set xs \<Longrightarrow> s p \<noteq> NaN"
  shows "sorted_wrt (\<lambda>p q. js_ge (s p) (s q)) (sort_key (\<lambda>p. js_rank_desc (s p)) xs)
         \<and> (\<forall>v. filter (\<lambda>p. s p = v) (sort_key (\<lambda>p. js_rank_desc (s p)) xs)
                 = filter (\<lambda>p. s p = v) xs)"
proof -
  let ?L = "sort_key (\<lambda>p. js_rank_desc (s p)) xs"
  have "sorted (map (\<lambda>p. js_rank_desc (s p)) ?L)"
    by (rule sorted_sort_key)
  then have "sorted_wrt (\<lambda>p q. js_rank_desc (s p) \<le> js_rank_desc (s q)) ?L"
    by (simp add: sorted_wrt_map)
  then have a: "sorted_wrt (\<lambda>p q. js_ge (s p) (s q)) ?L"
  proof (rule sorted_wrt_mono_rel [rotated])
    fix p q
    assume "p \<in> set ?L" and "q \<in> set ?L" and le: "js_rank_desc (s p) \<le> js_rank_desc (s q)"
    then have "s p \<noteq> NaN" and "s q \<noteq> NaN"
      using assms by simp_all
    then have "(js_rank (s q) \<le> js_rank (s p)) = js_le (s q) (s p)"
      by (intro js_rank_le)
    then show "js_ge (s p) (s q)"
      using le by (simp add: js_rank_desc_le js_ge_def)
  qed
  have b: "filter (\<lambda>p. s p = v) ?L = filter (\<lambda>p. s p = v) xs" for v
  proof -
    have "filter (\<lambda>p. js_rank_desc (s p) = js_rank_desc v) ?L
          = filter (\<lambda>p. js_rank_desc (s p) = js_rank_desc v) xs"
      by (rule sort_key_stable)
    then show ?thesis
      by (simp only: js_rank_desc_inj)
  qed
  show ?thesis
    using a b by simp
qed

lemma tie_numbers:
  "Number_str ''3.8'' = Fin (4278419646001971 / 1125899906842624)"
  "Number_str ''4.4'' = Fin (2476979795053773 / 562949953421312)"
  by code_simp+

lemma Number_str_small_ints:
  "Number_str ''0'' = Fin 0" "Number_str ''1'' = Fin 1" "Number_str ''2'' = Fin 2"
  "Number_str ''100'' = Fin 100" "Number_str ''120'' = Fin 120" "Number_str ''300'' = Fin 300"
  "Number_str ''50'' = Fin 50" "Number_str ''70'' = Fin 70" "Number_str ''90'' = Fin 90"
  "Number_str ''20'' = Fin 20"
  by (simp_all add: Number_str_def trim_def is_space_def parse_non_decimal_def
      parse_unsigned_decimal_def is_digit_def parse_exponent_def decimal_value_def scale10_def
      round_double_numeral round_double_0 round_double_1)

lemma tie_products:
  "product_of_row tie_base =
     \<lparr>p_id = ''base'', p_name = ''Base'', p_brand = ''Acme'', p_category = ''laptop'',
      p_price = Fin 100, p_description = ''base model'', p_stock = Fin 2, p_rating = Fin 4\<rparr>"
  "product_of_row tie_c1 =
     \<lparr>p_id = ''c1'', p_name = ''C1'', p_brand = ''Acme'', p_category = ''laptop'',
      p_price = Fin 100, p_description = ''candidate'', p_stock = Fin 1,
      p_rating = Fin (4278419646001971 / 1125899906842624)\<rparr>"
  "product_of_row tie_c2 =
     \<lparr>p_id = ''c2'', p_name = ''C2'', p_brand = ''Acme'', p_category = ''laptop'',
      p_price = Fin 120, p_description = ''candidate'', p_stock = Fin 0,
      p_rating = Fin (2476979795053773 / 562949953421312)\<rparr>"
  by (simp_all add: product_of_row_def tie_base_def tie_c1_def tie_c2_def tie_numbers
      Number_str_small_ints Number_str_examples)

lemma tie_scores:
  "scoreRecommendation (product_of_row tie_base) (product_of_row tie_c1)
     = Fin (5404319552844595 / 562949953421312)"
  "scoreRecommendation (product_of_row tie_base) (product_of_row tie_c2)
     = Fin (1351079888211149 / 140737488355328)"
  unfolding tie_products by code_simp+

text \<open>
  C5, as stated: for every productId that resolves to a known product the
  recommendations are drawn from the other products of the base's category. Not so for
  the empty identifier: the test is \<^verbatim>\<open>productId && cache.productById.has(productId)\<close>,
  and the empty string is falsy. With a product row whose identifier is empty, the
  identifier resolves to that product, and the call falls through to the ranking of the
  whole catalog by rating, which returns a product of another category and the base
  product itself.
\<close>

theorem recommendations_empty_id_falls_through:
  "productById (build_cache (map product_of_row [unnamed_row, tv_row]) [] []) []
     = Some (product_of_row unnamed_row)
   \<and> getRecommendations (build_cache (map product_of_row [unnamed_row, tv_row]) [] [])
        (Some []) None
     = [product_of_row tv_row, product_of_row unnamed_row]
   \<and> p_category (product_of_row tv_row) \<noteq> p_category (product_of_row unnamed_row)"
proof -
  have u: "product_of_row unnamed_row =
     \<lparr>p_id = [], p_name = ''Ghost'', p_brand = ''Acme'', p_category = ''laptop'',
      p_price = Fin 100, p_description = ''no identifier'', p_stock = Fin 1, p_rating = Fin 1\<rparr>"
    by (simp add: product_of_row_def unnamed_row_def Number_str_small_ints)
  have t: "product_of_row tv_row =
     \<lparr>p_id = ''tv1'', p_name = ''TV'', p_brand = ''Acme'', p_category = ''smart_tv'',
      p_price = Fin 300, p_description = ''television'', p_stock = Fin 2, p_rating = Fin 5\<rparr>"
    by (simp add: product_of_row_def tv_row_def Number_str_small_ints Number_str_examples)
  have a: "productById (build_cache (map product_of_row [unnamed_row, tv_row]) [] []) []
             = Some (product_of_row unnamed_row)"
    by (simp add: build_cache_def index_products_def u t)
  have b: "getRecommendations (build_cache (map product_of_row [unnamed_row, tv_row]) [] [])
             (Some []) None
           = [product_of_row tv_row, product_of_row unnamed_row]"
    by (simp add: getRecommendations_def build_cache_def u t js_sort_def rating_desc_def
        js_sub_def js_gt_def round_double_numeral)
  have c: "p_category (product_of_row tv_row) \<noteq> p_category (product_of_row unnamed_row)"
    by (simp add: u t)
  show ?thesis
    by (intro conjI, fact a, fact b, fact c)
qed

text \<open>
  C5, amended: for a snapshot built by a load and a product identifier that is not empty
  and resolves to the product \<open>b\<close>, the recommendations are at most six products, each
  another product of the category of \<open>b\<close>. Where no candidate has the score \<open>NaN\<close>, which
  is so whenever the price of \<open>b\<close> and the prices of the candidates are finite, they are
  the first six of the candidates sorted by descending score with a stable sort:
  candidates of equal score keep their catalog order. The score is the one the code
  computes in double arithmetic, every operation rounded,
  rating \<open>\<times> 2 + (1 - min (|\<Delta>price| / max (price of b, 1), 1))\<close> plus 1 if the stock is
  positive, where a rating that is \<open>NaN\<close> counts as 0. In the example both candidates
  score 10 and A, first in the catalog, precedes B.
\<close>

theorem recommendations_by_product:
  assumes given: "productId \<noteq> []"
    and resolves: "productById (build_cache ps rs pols) productId = Some b"
  shows "length (getRecommendations (build_cache ps rs pols) (Some productId) query) \<le> 6
         \<and> set (getRecommendations (build_cache ps rs pols) (Some productId) query)
             \<subseteq> {p \<in> set ps. p_category p = p_category b \<and> p_id p \<noteq> productId}
         \<and> ((\<forall>p \<in> set (same_category_others (build_cache ps rs pols) b productId).
                 scoreRecommendation b p \<noteq> NaN) \<longrightarrow>
              getRecommendations (build_cache ps rs pols) (Some productId) query =
                take 6 (sort_key (\<lambda>p. js_rank_desc (scoreRecommendation b p))
                          (same_category_others (build_cache ps rs pols) b productId))
              \<and> sorted_wrt (\<lambda>p q. js_ge (scoreRecommendation b p) (scoreRecommendation b q))
                    (sort_key (\<lambda>p. js_rank_desc (scoreRecommendation b p))
                       (same_category_others (build_cache ps rs pols) b productId))
              \<and> (\<forall>v. filter (\<lambda>p. scoreRecommendation b p = v)
                         (sort_key (\<lambda>p. js_rank_desc (scoreRecommendation b p))
                            (same_category_others (build_cache ps rs pols) b productId))
                       = filter (\<lambda>p. scoreRecommendation b p = v)
                           (same_category_others (build_cache ps rs pols) b productId)))
         \<and> (is_finite_num (p_price b) \<longrightarrow>
              (\<forall>p. is_finite_num (p_price p) \<longrightarrow> scoreRecommendation b p \<noteq> NaN))
         \<and> (\<forall>p. p_rating p \<noteq> NaN \<longrightarrow>
                scoreRecommendation b p = spec_recommendation_score b p)
         \<and> (\<forall>p. p_rating p = NaN \<longrightarrow>
                scoreRecommendation b p = spec_recommendation_score b (p\<lparr>p_rating := Fin 0\<rparr>))
         \<and> scoreRecommendation example_base example_A = Fin 10
         \<and> scoreRecommendation example_base example_B = Fin 10
         \<and> getRecommendations (build_cache [example_base, example_A, example_B] [] [])
              (Some ''base'') None = [example_A, example_B]"
proof -
  let ?c = "build_cache ps rs pols"
  let ?cands = "same_category_others ?c b productId"
  let ?s = "scoreRecommendation b"
  let ?mk = "\<lambda>product. \<lparr>item_product = product, item_score = scoreRecommendation b product\<rparr>"
  let ?L = "sort_key (\<lambda>p. js_rank_desc (?s p)) ?cands"
  have "getRecommendations ?c (Some productId) query =
          map item_product (take 6 (js_sort score_desc (map ?mk ?cands)))"
    using given resolves by (simp add: getRecommendations_def same_category_others_def)
  also have "\<dots> = map item_product (take 6 (map ?mk (js_sort (\<lambda>x y. score_desc (?mk x) (?mk y)) ?cands)))"
    by (simp only: js_sort_map)
  also have "\<dots> = take 6 (js_sort (\<lambda>x y. score_desc (?mk x) (?mk y)) ?cands)"
    by (simp add: take_map comp_def)
  also have "(\<lambda>x y. score_desc (?mk x) (?mk y)) = (\<lambda>x y. js_sub (?s y) (?s x))"
    by (simp add: score_desc_def)
  finally have code: "getRecommendations ?c (Some productId) query =
           take 6 (js_sort (\<lambda>x y. js_sub (?s y) (?s x)) ?cands)" .
  have len: "length (getRecommendations ?c (Some productId) query) \<le> 6"
    by (simp add: code)
  have "set (take 6 (js_sort (\<lambda>x y. js_sub (?s y) (?s x)) ?cands)) \<subseteq> set ?cands"
    using set_take_subset [of 6 "js_sort (\<lambda>x y. js_sub (?s y) (?s x)) ?cands"]
    by (simp only: set_js_sort)
  also have "set ?cands = {p \<in> set ps. p_category p = p_category b \<and> p_id p \<noteq> productId}"
    by (auto simp: same_category_others_def build_cache_def)
  finally have sub: "set (getRecommendations ?c (Some productId) query)
             \<subseteq> {p \<in> set ps. p_category p = p_category b \<and> p_id p \<noteq> productId}"
    by (simp only: code)
  have sorted_part: "(\<forall>p \<in> set ?cands. ?s p \<noteq> NaN) \<longrightarrow>
              getRecommendations ?c (Some productId) query = take 6 ?L
              \<and> sorted_wrt (\<lambda>p q. js_ge (?s p) (?s q)) ?L
              \<and> (\<forall>v. filter (\<lambda>p. ?s p = v) ?L = filter (\<lambda>p. ?s p = v) ?cands)"
  proof
    assume "\<forall>p \<in> set ?cands. ?s p \<noteq> NaN"
    then have nn: "\<And>p. p \<in> set ?cands \<Longrightarrow> ?s p \<noteq> NaN"
      by blast
    have "js_sort (\<lambda>x y. js_sub (?s y) (?s x)) ?cands = ?L"
      using nn on_grid_scoreRecommendation by (rule js_sort_score_desc)
    then have main: "getRecommendations ?c (Some productId) query = take 6 ?L"
      by (simp only: code)
    show "getRecommendations ?c (Some productId) query = take 6 ?L
              \<and> sorted_wrt (\<lambda>p q. js_ge (?s p) (?s q)) ?L
              \<and> (\<forall>v. filter (\<lambda>p. ?s p = v) ?L = filter (\<lambda>p. ?s p = v) ?cands)"
      using main sort_key_rank_desc [of ?cands ?s, OF nn] by (simp only: simp_thms)
  qed
  have fin: "is_finite_num (p_price b) \<longrightarrow>
              (\<forall>p. is_finite_num (p_price p) \<longrightarrow> ?s p \<noteq> NaN)"
    using scoreRecommendation_not_NaN by blast
  have f1: "\<forall>p. p_rating p \<noteq> NaN \<longrightarrow> ?s p = spec_recommendation_score b p"
    by (simp add: scoreRecommendation_def spec_recommendation_score_def Let_def js_or_zero_not_NaN)
  have f2: "\<forall>p. p_rating p = NaN \<longrightarrow>
                ?s p = spec_recommendation_score b (p\<lparr>p_rating := Fin 0\<rparr>)"
    by (simp add: scoreRecommendation_def spec_recommendation_score_def Let_def js_or_zero_def)
  have eA: "scoreRecommendation example_base example_A = Fin 10"
    unfolding example_base_def example_A_def by code_simp
  have eB: "scoreRecommendation example_base example_B = Fin 10"
    unfolding example_base_def example_B_def by code_simp
  have ex: "getRecommendations (build_cache [example_base, example_A, example_B] [] [])
              (Some ''base'') None = [example_A, example_B]"
  proof -
    have ids: "p_id example_base = ''base'' \<and> p_id example_A = ''A'' \<and> p_id example_B = ''B''
               \<and> p_category example_base = ''laptop'' \<and> p_category example_A = ''laptop''
               \<and> p_category example_B = ''laptop''"
      by (simp add: example_base_def example_A_def example_B_def)
    have idx: "index_products [example_base, example_A, example_B] ''base'' = Some example_base"
      by (simp add: index_products_def ids)
    show ?thesis
      by (simp add: getRecommendations_def build_cache_def idx ids js_sort_def score_desc_def
          eA eB js_sub_def js_gt_def round_double_0)
  qed
  show ?thesis
    by (intro conjI, fact len, fact sub, fact sorted_part, fact fin, fact f1, fact f2,
        fact eA, fact eB, fact ex)
qed

theorem recommendations_by_product_witness:
  "''base'' \<noteq> []
   \<and> productById (build_cache (map product_of_row [tie_base, tie_c1, tie_c2]) [] []) ''base''
       = Some (product_of_row tie_base)
   \<and> same_category_others (build_cache (map product_of_row [tie_base, tie_c1, tie_c2]) [] [])
        (product_of_row tie_base) ''base'' = [product_of_row tie_c1, product_of_row tie_c2]
   \<and> scoreRecommendation (product_of_row tie_base) (product_of_row tie_c1)
       = Fin (5404319552844595 / 562949953421312)
   \<and> scoreRecommendation (product_of_row tie_base) (product_of_row tie_c2)
       = Fin (1351079888211149 / 140737488355328)
   \<and> getRecommendations (build_cache (map product_of_row [tie_base, tie_c1, tie_c2]) [] [])
        (Some ''base'') None = [product_of_row tie_c2, product_of_row tie_c1]"
proof -
  let ?c = "build_cache (map product_of_row [tie_base, tie_c1, tie_c2]) [] []"
  have ids: "p_id (product_of_row tie_base) = ''base'' \<and> p_id (product_of_row tie_c1) = ''c1''
             \<and> p_id (product_of_row tie_c2) = ''c2''
             \<and> p_category (product_of_row tie_base) = ''laptop''
             \<and> p_category (product_of_row tie_c1) = ''laptop''
             \<and> p_category (product_of_row tie_c2) = ''laptop''"
    by (simp add: product_of_row_def tie_base_def tie_c1_def tie_c2_def)
  have h1: "''base'' \<noteq> []"
    by simp
  have h2: "productById ?c ''base'' = Some (product_of_row tie_base)"
    by (simp add: build_cache_def index_products_def ids)
  have cands: "same_category_others ?c (product_of_row tie_base) ''base''
                 = [product_of_row tie_c1, product_of_row tie_c2]"
    by (simp add: same_category_others_def build_cache_def ids)
  have h3': "\<forall>p \<in> set [product_of_row tie_c1, product_of_row tie_c2].
              scoreRecommendation (product_of_row tie_base) p \<noteq> NaN"
    by (simp add: tie_scores)
  note all = recommendations_by_product [OF h1 h2, of None, unfolded cands]
  note sorted = all [THEN conjunct2, THEN conjunct2, THEN conjunct1, THEN mp, OF h3',
      THEN conjunct1]
  have r: "getRecommendations ?c (Some ''base'') None
             = [product_of_row tie_c2, product_of_row tie_c1]"
    using sorted by (simp add: tie_scores)
  show ?thesis
    by (intro conjI, fact h1, fact h2, fact cands, fact tie_scores(1), fact tie_scores(2), fact r)
qed

subsection \<open>Price comparison\<close>

lemma load_installs_snapshot:
  assumes "loadCsv (products_csv fs) = Inr prows"
    and "loadCsv (reviews_csv fs) = Inr rrows"
    and "loadCsv (policies_csv fs) = Inr polrows"
  shows "load now fs st =
           Inr \<lparr>cache = Some (snapshot_of prows rrows polrows), lastLoaded = now,
                lastModified = getLastModified fs\<rparr>"
  using assms by (simp add: load_def snapshot_of_def)

lemma snapshot_products: "products (snapshot_of prows rrows polrows) = map product_of_row prows"
  by (simp add: snapshot_of_def build_cache_def)

lemma snapshot_price_on_grid:
  assumes "p \<in> set (products (snapshot_of prows rrows polrows))"
  shows "on_grid (p_price p)"
  using assms by (auto simp: snapshot_products product_of_row_def Number_str_grid)

lemma snapshot_resolved:
  assumes "productById (snapshot_of prows rrows polrows) productId = Some b"
  shows "b \<in> set (products (snapshot_of prows rrows polrows))"
  using assms index_products_member [of "map product_of_row prows" productId b]
  by (simp add: snapshot_of_def build_cache_def)

lemma js_min_fold_Fin:
  "fold (\<lambda>x acc. js_min acc x) (map Fin xs) (Fin a) = Fin (fold min xs a)"
  by (induction xs arbitrary: a) (simp_all add: js_min_Fin min.commute del: js_min.simps)

lemma js_max_fold_Fin:
  "fold (\<lambda>x acc. js_max acc x) (map Fin xs) (Fin a) = Fin (fold max xs a)"
  by (induction xs arbitrary: a) (simp_all add: js_max_Fin max.commute del: js_max.simps)

lemma js_min_list_Fin:
  assumes "xs \<noteq> []"
  shows "js_min_list (map Fin xs) = Fin (Min (set xs))"
proof -
  obtain y ys where xs: "xs = y # ys"
    using assms by (cases xs) auto
  have "js_min_list (map Fin xs) = fold (\<lambda>x acc. js_min acc x) (map Fin ys) (Fin y)"
    by (simp add: js_min_list_def xs)
  also have "\<dots> = Fin (fold min ys y)"
    by (rule js_min_fold_Fin)
  also have "fold min ys y = Min (set xs)"
    unfolding xs by (rule Min.set_eq_fold [symmetric])
  finally show ?thesis .
qed

lemma js_max_list_Fin:
  assumes "xs \<noteq> []"
  shows "js_max_list (map Fin xs) = Fin (Max (set xs))"
proof -
  obtain y ys where xs: "xs = y # ys"
    using assms by (cases xs) auto
  have "js_max_list (map Fin xs) = fold (\<lambda>x acc. js_max acc x) (map Fin ys) (Fin y)"
    by (simp add: js_max_list_def xs)
  also have "\<dots> = Fin (fold max ys y)"
    by (rule js_max_fold_Fin)
  also have "fold max ys y = Max (set xs)"
    unfolding xs by (rule Max.set_eq_fold [symmetric])
  finally show ?thesis .
qed

lemma double_sum_fold:
  "fold (\<lambda>price sum. js_add sum price) (map Fin xs) (Fin 0) = double_sum xs"
  by (simp add: double_sum_def fold_map comp_def)

lemma prices_Fin:
  assumes "list_all (\<lambda>p. is_finite_num (p_price p)) xs"
  shows "map p_price xs = map Fin (map (\<lambda>p. num_val (p_price p)) xs)"
  using assms by (induction xs) (auto simp: finite_num_Fin)

text \<open>Whole numbers whose magnitudes add up to less than \<open>2^53\<close> are summed without
  rounding error.\<close>

lemma double_sum_ints_from:
  assumes "\<bar>a\<bar> + sum_list (map abs ks) < 2 ^ 53"
  shows "fold (\<lambda>x s. js_add s (Fin x)) (map of_int ks) (Fin (of_int a))
         = Fin (of_int (a + sum_list ks))"
  using assms
proof (induction ks arbitrary: a)
  case Nil
  then show ?case by simp
next
  case (Cons k ks)
  have nn: "0 \<le> sum_list (map abs ks)"
    by (rule sum_list_nonneg) auto
  have small: "\<bar>a + k\<bar> < 2 ^ 53"
    using Cons.prems nn by simp
  have step: "js_add (Fin (of_int a)) (Fin (of_int k)) = Fin (of_int (a + k))"
    using round_double_of_int [OF small] by simp
  have "\<bar>a + k\<bar> + sum_list (map abs ks) < 2 ^ 53"
    using Cons.prems by simp
  then have "fold (\<lambda>x s. js_add s (Fin x)) (map of_int ks) (Fin (of_int (a + k)))
             = Fin (of_int (a + k + sum_list ks))"
    by (rule Cons.IH)
  then show ?case
    by (simp add: step add.assoc del: js_add.simps)
qed

lemma double_mean_ints:
  assumes "ks \<noteq> []" and "sum_list (map abs ks) < 2 ^ 53"
  shows "double_mean (map of_int ks) = round_double (of_int (sum_list ks) / of_nat (length ks))"
proof -
  have "double_sum (map of_int ks) = Fin (of_int (0 + sum_list ks))"
    unfolding double_sum_def using double_sum_ints_from [of 0 ks] assms(2) by simp
  then show ?thesis
    using assms(1) by (simp add: double_mean_def js_of_nat_def)
qed

text \<open>The sum and the mean in double arithmetic against the exact ones: each of the
  \<open>n\<close> additions and the division add a relative error of at most \<open>2^-53\<close>.\<close>

lemma fold_js_add_not_finite:
  assumes "\<not> is_finite_num s0"
  shows "\<not> is_finite_num (fold (\<lambda>x s. js_add s (Fin x)) xs s0)"
  using assms
proof (induction xs arbitrary: s0)
  case Nil
  then show ?case by simp
next
  case (Cons x xs)
  have "\<not> is_finite_num (js_add s0 (Fin x))"
    using Cons.prems by (cases s0) simp_all
  then show ?case
    using Cons.IH by simp
qed

lemma double_sum_error_from:
  assumes "fold (\<lambda>x s. js_add s (Fin x)) xs (Fin a) = Fin s"
  shows "\<bar>s - (a + sum_list xs)\<bar>
         \<le> ((1 + pow2 (- 53)) ^ length xs - 1) * (\<bar>a\<bar> + sum_list (map abs xs))
           + of_nat (length xs) * (1 + pow2 (- 53)) ^ length xs * pow2 (- 1075)"
  using assms
proof (induction xs arbitrary: a)
  case Nil
  then show ?case by simp
next
  case (Cons x xs)
  define u where "u = pow2 (- 53)"
  define h where "h = pow2 (- 1075)"
  define P where "P = (1 + u) ^ length xs"
  define A where "A = sum_list (map abs xs)"
  define B where "B = \<bar>a\<bar> + \<bar>x\<bar>"
  define n :: rat where "n = of_nat (length xs)"
  have u0: "0 < u" and h0: "0 < h"
    by (simp_all add: u_def h_def pow2_pos)
  have P1: "1 \<le> P"
    unfolding P_def using u0 by (intro one_le_power) simp
  have A0: "0 \<le> A"
    unfolding A_def by (rule sum_list_nonneg) auto
  have n0: "0 \<le> n"
    by (simp add: n_def)
  have fold1: "fold (\<lambda>x s. js_add s (Fin x)) xs (round_double (a + x)) = Fin s"
    using Cons.prems by simp
  have "is_finite_num (round_double (a + x))"
    using fold1 fold_js_add_not_finite [of "round_double (a + x)" xs] by auto
  then obtain a' where a': "round_double (a + x) = Fin a'"
    by (cases "round_double (a + x)") simp_all
  have step: "\<bar>a' - (a + x)\<bar> \<le> \<bar>a + x\<bar> * u + h"
    unfolding u_def h_def using a' by (rule round_double_abs_error)
  have ax: "\<bar>a + x\<bar> \<le> B"
    unfolding B_def by linarith
  have step': "\<bar>a' - (a + x)\<bar> \<le> B * u + h"
  proof -
    have "\<bar>a + x\<bar> * u \<le> B * u"
      using ax u0 by (simp only: mult_le_cancel_right_pos)
    then show ?thesis using step by linarith
  qed
  have a'b: "\<bar>a'\<bar> \<le> (1 + u) * B + h"
  proof -
    have "\<bar>a'\<bar> \<le> \<bar>a + x\<bar> + \<bar>a' - (a + x)\<bar>" by linarith
    also have "\<dots> \<le> B + (B * u + h)" using ax step' by linarith
    also have "\<dots> = (1 + u) * B + h" by (simp add: algebra_simps)
    finally show ?thesis .
  qed
  have IH: "\<bar>s - (a' + sum_list xs)\<bar> \<le> (P - 1) * (\<bar>a'\<bar> + A) + n * P * h"
    using Cons.IH [of a'] fold1 unfolding a' P_def A_def n_def u_def h_def by simp
  have "(P - 1) * (\<bar>a'\<bar> + A) \<le> (P - 1) * ((1 + u) * B + h + A)"
    using a'b P1 by (intro mult_left_mono) simp_all
  then have IH': "\<bar>s - (a' + sum_list xs)\<bar> \<le> (P - 1) * ((1 + u) * B + h + A) + n * P * h"
    using IH by linarith
  have "\<bar>s - (a + sum_list (x # xs))\<bar> \<le> \<bar>s - (a' + sum_list xs)\<bar> + \<bar>a' - (a + x)\<bar>"
    by simp
  also have "\<dots> \<le> (P - 1) * ((1 + u) * B + h + A) + n * P * h + (B * u + h)"
    using IH' step' by linarith
  also have "\<dots> = ((1 + u) * P - 1) * (B + A) + (n + 1) * ((1 + u) * P) * h
                     - (u * P * A + (n + 1) * (u * P) * h)"
    by (simp add: algebra_simps)
  also have "\<dots> \<le> ((1 + u) * P - 1) * (B + A) + (n + 1) * ((1 + u) * P) * h"
  proof -
    have "0 \<le> u * P * A" using u0 P1 A0 by simp
    moreover have "0 \<le> (n + 1) * (u * P) * h" using u0 P1 n0 h0 by simp
    ultimately show ?thesis by linarith
  qed
  finally show ?case
    by (simp add: P_def A_def B_def n_def u_def h_def algebra_simps)
qed


lemma double_mean_error:
  assumes "xs \<noteq> []" and "double_mean xs = Fin m"
  shows "\<bar>m - sum_list xs / of_nat (length xs)\<bar>
         \<le> ((1 + pow2 (- 53)) ^ (length xs + 1) - 1)
             * (sum_list (map abs xs) / of_nat (length xs))
           + ((1 + pow2 (- 53)) ^ (length xs + 1) + 1) * pow2 (- 1075)"
proof -
  define u where "u = pow2 (- 53)"
  define h where "h = pow2 (- 1075)"
  define P where "P = (1 + u) ^ length xs"
  define A where "A = sum_list (map abs xs)"
  define T where "T = sum_list xs"
  define n :: rat where "n = of_nat (length xs)"
  have u0: "0 < u" and h0: "0 < h"
    by (simp_all add: u_def h_def pow2_pos)
  have P1: "1 \<le> P"
    unfolding P_def using u0 by (intro one_le_power) simp
  have n0: "0 < n"
    using assms(1) by (simp add: n_def)
  have TA: "\<bar>T\<bar> \<le> A"
    unfolding T_def A_def by (rule sum_list_abs)
  have dm: "js_div (double_sum xs) (Fin n) = Fin m"
    using assms(2) by (simp add: double_mean_def js_of_nat_def n_def)
  obtain s where s: "double_sum xs = Fin s"
    using dm n0 by (cases "double_sum xs") (simp_all split: if_splits)
  have m: "round_double (s / n) = Fin m"
    using dm n0 by (simp add: s)
  have "\<bar>s - (0 + sum_list xs)\<bar>
         \<le> ((1 + pow2 (- 53)) ^ length xs - 1) * (\<bar>0\<bar> + sum_list (map abs xs))
           + of_nat (length xs) * (1 + pow2 (- 53)) ^ length xs * pow2 (- 1075)"
    using s unfolding double_sum_def by (rule double_sum_error_from)
  then have E: "\<bar>s - T\<bar> \<le> (P - 1) * A + n * P * h"
    by (simp add: P_def A_def T_def n_def u_def h_def)
  have R: "\<bar>m - s / n\<bar> \<le> \<bar>s / n\<bar> * u + h"
    unfolding u_def h_def using m by (rule round_double_abs_error)
  have sb: "\<bar>s\<bar> \<le> A + ((P - 1) * A + n * P * h)"
    using TA E by linarith
  have "\<bar>s / n\<bar> = \<bar>s\<bar> / n"
    using n0 by (simp add: abs_divide)
  also have "\<dots> \<le> (A + ((P - 1) * A + n * P * h)) / n"
    using sb n0 by (simp only: divide_le_cancel) simp
  finally have "\<bar>s / n\<bar> * u \<le> (A + ((P - 1) * A + n * P * h)) / n * u"
    using u0 by (simp only: mult_le_cancel_right_pos)
  then have R': "\<bar>m - s / n\<bar> \<le> (A + ((P - 1) * A + n * P * h)) / n * u + h"
    using R by linarith
  have "\<bar>s / n - T / n\<bar> = \<bar>s - T\<bar> / n"
    using n0 by (simp add: diff_divide_distrib [symmetric] abs_divide)
  also have "\<dots> \<le> ((P - 1) * A + n * P * h) / n"
    using E n0 by (simp only: divide_le_cancel) simp
  finally have D: "\<bar>s / n - T / n\<bar> \<le> ((P - 1) * A + n * P * h) / n" .
  have "\<bar>m - T / n\<bar> \<le> \<bar>m - s / n\<bar> + \<bar>s / n - T / n\<bar>"
    by linarith
  also have "\<dots> \<le> (A + ((P - 1) * A + n * P * h)) / n * u + h
                     + ((P - 1) * A + n * P * h) / n"
    using R' D by linarith
  also have "\<dots> = ((1 + u) * P - 1) * (A / n) + ((1 + u) * P + 1) * h"
    using n0 by (simp add: field_simps)
  finally show ?thesis
    by (simp add: P_def A_def T_def n_def u_def h_def mult.commute)
qed

text \<open>Numbers other than \<open>NaN\<close> are sorted by the comparator \<^verbatim>\<open>a.price - b.price\<close> in
  ascending order.\<close>

lemma js_sort_price_asc:
  assumes "\<And>p. p \<in> set xs \<Longrightarrow> p_price p \<noteq> NaN" and "\<And>p. p \<in> set xs \<Longrightarrow> on_grid (p_price p)"
  shows "js_sort price_asc xs = sort_key (\<lambda>p. js_rank (p_price p)) xs"
proof (rule js_sort_sort_key)
  fix x y
  assume "x \<in> set xs" and "y \<in> set xs"
  then show "js_gt (price_asc x y) (Fin 0) = (js_rank (p_price y) < js_rank (p_price x))"
    using js_gt_sub_rank [of "p_price x" "p_price y"] assms by (simp add: price_asc_def)
qed

lemma sort_key_rank_asc:
  assumes "\<And>p. p \<in> set xs \<Longrightarrow> p_price p \<noteq> NaN"
  shows "sorted_wrt (\<lambda>p q. js_le (p_price p) (p_price q))
           (sort_key (\<lambda>p. js_rank (p_price p)) xs)"
proof -
  let ?L = "sort_key (\<lambda>p. js_rank (p_price p)) xs"
  have "sorted (map (\<lambda>p. js_rank (p_price p)) ?L)"
    by (rule sorted_sort_key)
  then have "sorted_wrt (\<lambda>p q. js_rank (p_price p) \<le> js_rank (p_price q)) ?L"
    by (simp add: sorted_wrt_map)
  then show ?thesis
  proof (rule sorted_wrt_mono_rel [rotated])
    fix p q
    assume "p \<in> set ?L" and "q \<in> set ?L" and le: "js_rank (p_price p) \<le> js_rank (p_price q)"
    then have "p_price p \<noteq> NaN" and "p_price q \<noteq> NaN"
      using assms by simp_all
    then have "(js_rank (p_price p) \<le> js_rank (p_price q)) = js_le (p_price p) (p_price q)"
      by (rule js_rank_le)
    then show "js_le (p_price p) (p_price q)"
      using le by simp
  qed
qed

lemma js_lt_not_NaN: "js_lt x y \<Longrightarrow> x \<noteq> NaN"
  by (cases x) simp_all

lemma getPriceComparison_found:
  assumes "productById c productId = Some b"
    and "\<bar>lastModified st\<bar> \<le> 8640000000000000"
  shows "getPriceComparison st c productId =
     Inr (Some
       \<lparr>pc_base = b,
        pc_min = toFixed2 (js_min_list (map p_price (category_products c b))),
        pc_max = toFixed2 (js_max_list (map p_price (category_products c b))),
        pc_avg = toFixed2 (js_div
                   (fold (\<lambda>price sum. js_add sum price) (map p_price (category_products c b))
                      (Fin 0))
                   (js_of_nat (length (map p_price (category_products c b))))),
        pc_cheaper = take 5 (js_sort price_asc
                       (filter (\<lambda>p. js_lt (p_price p) (p_price b)) (category_products c b))),
        pc_updated_at = (if 0 \<le> lastModified st then \<lfloor>lastModified st\<rfloor>
                         else \<lceil>lastModified st\<rceil>)\<rparr>)"
  using assms
  by (simp add: getPriceComparison_def Let_def toISOString_instant_def category_products_def)

lemma getPriceComparison_invalid_date:
  assumes "productById c productId = Some b"
    and "8640000000000000 < \<bar>lastModified st\<bar>"
  shows "getPriceComparison st c productId = Inl RangeError"
  using assms by (simp add: getPriceComparison_def Let_def toISOString_instant_def)

lemma price_statistics:
  assumes fin: "list_all (\<lambda>p. is_finite_num (p_price p)) (category_products c b)"
    and ne: "category_products c b \<noteq> []"
  shows "js_min_list (map p_price (category_products c b)) = Fin (Min (set (category_prices c b)))"
    and "js_max_list (map p_price (category_products c b)) = Fin (Max (set (category_prices c b)))"
    and "js_div (fold (\<lambda>price sum. js_add sum price) (map p_price (category_products c b)) (Fin 0))
           (js_of_nat (length (map p_price (category_products c b))))
         = double_mean (category_prices c b)"
proof -
  have prices: "map p_price (category_products c b) = map Fin (category_prices c b)"
    using prices_Fin [OF fin] by (simp only: category_prices_def)
  have xs_ne: "category_prices c b \<noteq> []"
    using ne by (simp add: category_prices_def)
  show "js_min_list (map p_price (category_products c b)) = Fin (Min (set (category_prices c b)))"
    by (simp only: prices js_min_list_Fin [OF xs_ne])
  show "js_max_list (map p_price (category_products c b)) = Fin (Max (set (category_prices c b)))"
    by (simp only: prices js_max_list_Fin [OF xs_ne])
  have len: "length (map p_price (category_products c b)) = length (category_prices c b)"
    by (simp only: prices length_map)
  show "js_div (fold (\<lambda>price sum. js_add sum price) (map p_price (category_products c b)) (Fin 0))
           (js_of_nat (length (map p_price (category_products c b))))
         = double_mean (category_prices c b)"
    unfolding len unfolding prices double_sum_fold double_mean_def ..
qed

lemma cheaper_list:
  assumes res: "productById (snapshot_of prows rrows polrows) productId = Some b"
  shows "take 5 (js_sort price_asc
            (filter (\<lambda>p. js_lt (p_price p) (p_price b))
               (category_products (snapshot_of prows rrows polrows) b)))
         = take 5 (sort_key (\<lambda>p. js_rank (p_price p))
                     (cheaper_products (snapshot_of prows rrows polrows) b))"
    and "sorted_wrt (\<lambda>p q. js_le (p_price p) (p_price q))
           (take 5 (sort_key (\<lambda>p. js_rank (p_price p))
                      (cheaper_products (snapshot_of prows rrows polrows) b)))"
    and "set (take 5 (sort_key (\<lambda>p. js_rank (p_price p))
                        (cheaper_products (snapshot_of prows rrows polrows) b)))
         \<subseteq> {p \<in> set (products (snapshot_of prows rrows polrows)).
               p_category p = p_category b \<and> js_lt (p_price p) (p_price b)}"
proof -
  let ?c = "snapshot_of prows rrows polrows"
  let ?ch = "cheaper_products ?c b"
  let ?L = "sort_key (\<lambda>p. js_rank (p_price p)) ?ch"
  have ch: "filter (\<lambda>p. js_lt (p_price p) (p_price b)) (category_products ?c b) = ?ch"
    by (simp add: category_products_def cheaper_products_def conj_commute)
  have nn: "\<And>p. p \<in> set ?ch \<Longrightarrow> p_price p \<noteq> NaN"
    by (auto simp: cheaper_products_def dest: js_lt_not_NaN)
  have og: "\<And>p. p \<in> set ?ch \<Longrightarrow> on_grid (p_price p)"
    using snapshot_price_on_grid [of _ prows rrows polrows] by (simp add: cheaper_products_def)
  have "js_sort price_asc ?ch = ?L"
    using nn og by (rule js_sort_price_asc)
  then show "take 5 (js_sort price_asc
            (filter (\<lambda>p. js_lt (p_price p) (p_price b)) (category_products ?c b))) = take 5 ?L"
    by (simp only: ch)
  have "sorted_wrt (\<lambda>p q. js_le (p_price p) (p_price q)) ?L"
    using nn by (rule sort_key_rank_asc)
  then show "sorted_wrt (\<lambda>p q. js_le (p_price p) (p_price q)) (take 5 ?L)"
    by (rule sorted_wrt_take)
  have "set (take 5 ?L) \<subseteq> set ?L"
    by (rule set_take_subset)
  also have "set ?L = set ?ch"
    by simp
  also have "\<dots> = {p \<in> set (products ?c). p_category p = p_category b \<and> js_lt (p_price p) (p_price b)}"
    by (auto simp: cheaper_products_def)
  finally show "set (take 5 ?L)
         \<subseteq> {p \<in> set (products ?c). p_category p = p_category b \<and> js_lt (p_price p) (p_price b)}" .
qed

lemma priced_fields:
  "p_id (priced i x) = i" "p_category (priced i x) = ''speaker''"
  "p_price (priced i x) = Number_str x"
  by (simp_all add: priced_def priced_row_def product_of_row_def)

text \<open>
  C7, as stated: whenever the identifier resolves, the comparison holds the minimum,
  maximum and mean price of the category. Not so when a price field of the category is
  not numeric: \<^verbatim>\<open>load()\<close> accepts the row with the price \<open>NaN\<close>, and for the category
  with the price fields 90 and \<^verbatim>\<open>abc\<close> the minimum, the maximum and the mean are all
  \<open>NaN\<close>.
\<close>

theorem price_comparison_non_numeric_price:
  "getPriceComparison example_store
     (snapshot_of [priced_row ''z'' ''90'', priced_row ''y'' ''abc''] [] []) ''z''
   = Inr (Some \<lparr>pc_base = priced ''z'' ''90'', pc_min = NaN, pc_max = NaN, pc_avg = NaN,
                pc_cheaper = [], pc_updated_at = 5\<rparr>)"
proof -
  let ?c = "snapshot_of [priced_row ''z'' ''90'', priced_row ''y'' ''abc''] [] []"
  have ps: "products ?c = [priced ''z'' ''90'', priced ''y'' ''abc'']"
    by (simp add: snapshot_products priced_def)
  have res: "productById ?c ''z'' = Some (priced ''z'' ''90'')"
    by (simp add: snapshot_of_def build_cache_def index_products_def priced_def [symmetric]
        priced_fields)
  have cat: "category_products ?c (priced ''z'' ''90'') = [priced ''z'' ''90'', priced ''y'' ''abc'']"
    by (simp add: category_products_def ps priced_fields)
  have valid: "\<bar>lastModified example_store\<bar> \<le> 8640000000000000"
    by (simp add: example_store_def)
  show ?thesis
    unfolding getPriceComparison_found [OF res valid] cat
    by (simp add: priced_fields Number_str_small_ints Number_str_abc js_min_list_def
        js_max_list_def js_of_nat_def toFixed2_def round_double_numeral example_store_def
        js_sort_def)
qed

text \<open>
  C7, amended: for a snapshot built by a load, the price comparison is not-found when
  the identifier resolves to no product. When it resolves and the store's last
  modification time is a valid date, the comparison holds the resolved product and the
  first five, by ascending price with a stable sort (products of equal price keep their
  catalog order), of the products of its category that are strictly cheaper than it;
  when moreover every price of the category is a
  finite number, it holds the minimum and the maximum of these prices and their mean as
  computed in double arithmetic (\<open>double_mean\<close>), each rounded by \<^verbatim>\<open>toFixed(2)\<close>. That
  rounding gives, below \<open>10^21\<close>, the double nearest to a hundredth that lies within half
  a hundredth of the number rounded. The mean of \<open>n\<close> numbers in double arithmetic, when
  finite, differs from their exact mean by at most \<open>(1 + 2^-53)^(n+1) - 1\<close> times the mean
  of their magnitudes, and \<open>((1 + 2^-53)^(n+1) + 1) * 2^-1075\<close>; the mean of whole prices
  whose magnitudes add up to less than \<open>2^53\<close> is the double nearest to their exact
  mean. When the last modification time is no valid date, \<^verbatim>\<open>toISOString\<close> throws a
  RangeError. For the price fields 50, 70, 90 and the base of price 90 the results are
  50, 90, 70 and the products of price 50 and 70.
\<close>

theorem price_comparison:
  "(productById (snapshot_of prows rrows polrows) productId = None \<longrightarrow>
      getPriceComparison st (snapshot_of prows rrows polrows) productId = Inr None)
   \<and> (\<bar>lastModified st\<bar> \<le> 8640000000000000 \<longrightarrow>
        (\<forall>b. productById (snapshot_of prows rrows polrows) productId = Some b \<longrightarrow>
           (\<exists>r. getPriceComparison st (snapshot_of prows rrows polrows) productId = Inr (Some r)
              \<and> pc_base r = b
              \<and> pc_cheaper r =
                  take 5 (sort_key (\<lambda>p. js_rank (p_price p))
                            (cheaper_products (snapshot_of prows rrows polrows) b))
              \<and> length (pc_cheaper r) \<le> 5
              \<and> sorted_wrt (\<lambda>p q. js_le (p_price p) (p_price q)) (pc_cheaper r)
              \<and> set (pc_cheaper r)
                  \<subseteq> {p \<in> set (products (snapshot_of prows rrows polrows)).
                        p_category p = p_category b \<and> js_lt (p_price p) (p_price b)}
              \<and> (list_all (\<lambda>p. is_finite_num (p_price p))
                    (category_products (snapshot_of prows rrows polrows) b) \<longrightarrow>
                   pc_min r = toFixed2 (Fin (Min (set
                                (category_prices (snapshot_of prows rrows polrows) b))))
                   \<and> pc_max r = toFixed2 (Fin (Max (set
                                (category_prices (snapshot_of prows rrows polrows) b))))
                   \<and> pc_avg r = toFixed2 (double_mean
                                (category_prices (snapshot_of prows rrows polrows) b))))))
   \<and> (\<forall>b v. filter (\<lambda>p. p_price p = v)
               (sort_key (\<lambda>p. js_rank (p_price p))
                  (cheaper_products (snapshot_of prows rrows polrows) b))
             = filter (\<lambda>p. p_price p = v)
                 (cheaper_products (snapshot_of prows rrows polrows) b))
   \<and> (8640000000000000 < \<bar>lastModified st\<bar> \<longrightarrow>
        (\<forall>b. productById (snapshot_of prows rrows polrows) productId = Some b \<longrightarrow>
           getPriceComparison st (snapshot_of prows rrows polrows) productId = Inl RangeError))
   \<and> (\<forall>a. \<bar>a\<bar> < 10 ^ 21 \<longrightarrow>
          (\<exists>n::int. toFixed2 (Fin a) = round_double (of_int n / 100)
                   \<and> \<bar>of_int n / 100 - a\<bar> \<le> 1 / 200))
   \<and> (\<forall>xs m. xs \<noteq> [] \<and> double_mean xs = Fin m \<longrightarrow>
          \<bar>m - sum_list xs / of_nat (length xs)\<bar>
            \<le> ((1 + pow2 (- 53)) ^ (length xs + 1) - 1)
                * (sum_list (map abs xs) / of_nat (length xs))
              + ((1 + pow2 (- 53)) ^ (length xs + 1) + 1) * pow2 (- 1075))
   \<and> (\<forall>ks. ks \<noteq> [] \<and> sum_list (map abs ks) < 2 ^ 53 \<longrightarrow>
          double_mean (map of_int ks)
            = round_double (of_int (sum_list ks) / of_nat (length ks)))
   \<and> (\<bar>lastModified st\<bar> \<le> 8640000000000000 \<longrightarrow>
        (\<exists>r. getPriceComparison st
                 (snapshot_of [priced_row ''x'' ''50'', priced_row ''y'' ''70'',
                               priced_row ''z'' ''90''] rrows polrows) ''z''
               = Inr (Some r)
             \<and> pc_base r = priced ''z'' ''90''
             \<and> pc_min r = Fin 50 \<and> pc_max r = Fin 90 \<and> pc_avg r = Fin 70
             \<and> pc_cheaper r = [priced ''x'' ''50'', priced ''y'' ''70'']))"
proof -
  let ?c = "snapshot_of prows rrows polrows"
  have none: "productById ?c productId = None \<longrightarrow> getPriceComparison st ?c productId = Inr None"
    by (simp add: getPriceComparison_def)
  have found: "\<bar>lastModified st\<bar> \<le> 8640000000000000 \<longrightarrow>
        (\<forall>b. productById ?c productId = Some b \<longrightarrow>
           (\<exists>r. getPriceComparison st ?c productId = Inr (Some r)
              \<and> pc_base r = b
              \<and> pc_cheaper r =
                  take 5 (sort_key (\<lambda>p. js_rank (p_price p)) (cheaper_products ?c b))
              \<and> length (pc_cheaper r) \<le> 5
              \<and> sorted_wrt (\<lambda>p q. js_le (p_price p) (p_price q)) (pc_cheaper r)
              \<and> set (pc_cheaper r)
                  \<subseteq> {p \<in> set (products ?c).
                        p_category p = p_category b \<and> js_lt (p_price p) (p_price b)}
              \<and> (list_all (\<lambda>p. is_finite_num (p_price p)) (category_products ?c b) \<longrightarrow>
                   pc_min r = toFixed2 (Fin (Min (set (category_prices ?c b))))
                   \<and> pc_max r = toFixed2 (Fin (Max (set (category_prices ?c b))))
                   \<and> pc_avg r = toFixed2 (double_mean (category_prices ?c b)))))"
  proof (intro impI allI)
    fix b
    assume valid: "\<bar>lastModified st\<bar> \<le> 8640000000000000"
      and res: "productById ?c productId = Some b"
    let ?L = "take 5 (sort_key (\<lambda>p. js_rank (p_price p)) (cheaper_products ?c b))"
    define r where "r =
       \<lparr>pc_base = b,
        pc_min = toFixed2 (js_min_list (map p_price (category_products ?c b))),
        pc_max = toFixed2 (js_max_list (map p_price (category_products ?c b))),
        pc_avg = toFixed2 (js_div
                   (fold (\<lambda>price sum. js_add sum price) (map p_price (category_products ?c b))
                      (Fin 0))
                   (js_of_nat (length (map p_price (category_products ?c b))))),
        pc_cheaper = ?L,
        pc_updated_at = (if 0 \<le> lastModified st then \<lfloor>lastModified st\<rfloor>
                         else \<lceil>lastModified st\<rceil>)\<rparr>"
    have ret: "getPriceComparison st ?c productId = Inr (Some r)"
      unfolding r_def by (simp only: getPriceComparison_found [OF res valid] cheaper_list(1) [OF res])
    have base: "pc_base r = b" and ch: "pc_cheaper r = ?L"
      by (simp_all add: r_def)
    have len: "length (pc_cheaper r) \<le> 5"
      by (simp add: ch)
    have srt: "sorted_wrt (\<lambda>p q. js_le (p_price p) (p_price q)) (pc_cheaper r)"
      unfolding ch by (rule cheaper_list(2) [OF res])
    have sub: "set (pc_cheaper r)
                  \<subseteq> {p \<in> set (products ?c).
                        p_category p = p_category b \<and> js_lt (p_price p) (p_price b)}"
      unfolding ch by (rule cheaper_list(3) [OF res])
    have ne: "category_products ?c b \<noteq> []"
      using snapshot_resolved [OF res] by (auto simp: category_products_def filter_empty_conv)
    have stats: "list_all (\<lambda>p. is_finite_num (p_price p)) (category_products ?c b) \<longrightarrow>
                   pc_min r = toFixed2 (Fin (Min (set (category_prices ?c b))))
                   \<and> pc_max r = toFixed2 (Fin (Max (set (category_prices ?c b))))
                   \<and> pc_avg r = toFixed2 (double_mean (category_prices ?c b))"
    proof
      assume fin: "list_all (\<lambda>p. is_finite_num (p_price p)) (category_products ?c b)"
      have "pc_min r = toFixed2 (Fin (Min (set (category_prices ?c b))))"
        and "pc_max r = toFixed2 (Fin (Max (set (category_prices ?c b))))"
        and "pc_avg r = toFixed2 (double_mean (category_prices ?c b))"
        by (simp_all add: r_def price_statistics [OF fin ne] del: length_map)
      then show "pc_min r = toFixed2 (Fin (Min (set (category_prices ?c b))))
                   \<and> pc_max r = toFixed2 (Fin (Max (set (category_prices ?c b))))
                   \<and> pc_avg r = toFixed2 (double_mean (category_prices ?c b))"
        by (intro conjI)
    qed
    show "\<exists>r. getPriceComparison st ?c productId = Inr (Some r)
              \<and> pc_base r = b
              \<and> pc_cheaper r =
                  take 5 (sort_key (\<lambda>p. js_rank (p_price p)) (cheaper_products ?c b))
              \<and> length (pc_cheaper r) \<le> 5
              \<and> sorted_wrt (\<lambda>p q. js_le (p_price p) (p_price q)) (pc_cheaper r)
              \<and> set (pc_cheaper r)
                  \<subseteq> {p \<in> set (products ?c).
                        p_category p = p_category b \<and> js_lt (p_price p) (p_price b)}
              \<and> (list_all (\<lambda>p. is_finite_num (p_price p)) (category_products ?c b) \<longrightarrow>
                   pc_min r = toFixed2 (Fin (Min (set (category_prices ?c b))))
                   \<and> pc_max r = toFixed2 (Fin (Max (set (category_prices ?c b))))
                   \<and> pc_avg r = toFixed2 (double_mean (category_prices ?c b)))"
      by (intro exI [of _ r] conjI, fact ret, fact base, fact ch, fact len, fact srt, fact sub,
          fact stats)
  qed
  have stable: "\<forall>b v. filter (\<lambda>p. p_price p = v)
               (sort_key (\<lambda>p. js_rank (p_price p)) (cheaper_products ?c b))
             = filter (\<lambda>p. p_price p = v) (cheaper_products ?c b)"
  proof (intro allI)
    fix b v
    have "filter (\<lambda>p. js_rank (p_price p) = js_rank v)
               (sort_key (\<lambda>p. js_rank (p_price p)) (cheaper_products ?c b))
             = filter (\<lambda>p. js_rank (p_price p) = js_rank v) (cheaper_products ?c b)"
      by (rule sort_key_stable)
    then show "filter (\<lambda>p. p_price p = v)
               (sort_key (\<lambda>p. js_rank (p_price p)) (cheaper_products ?c b))
             = filter (\<lambda>p. p_price p = v) (cheaper_products ?c b)"
      by (simp only: js_rank_inj)
  qed
  have invalid: "8640000000000000 < \<bar>lastModified st\<bar> \<longrightarrow>
        (\<forall>b. productById ?c productId = Some b \<longrightarrow>
           getPriceComparison st ?c productId = Inl RangeError)"
    using getPriceComparison_invalid_date by blast
  have rounding: "\<forall>a. \<bar>a\<bar> < 10 ^ 21 \<longrightarrow>
          (\<exists>n::int. toFixed2 (Fin a) = round_double (of_int n / 100)
                   \<and> \<bar>of_int n / 100 - a\<bar> \<le> 1 / 200)"
    using toFixed2_nearest_hundredth by blast
  have accuracy: "\<forall>xs m. xs \<noteq> [] \<and> double_mean xs = Fin m \<longrightarrow>
          \<bar>m - sum_list xs / of_nat (length xs)\<bar>
            \<le> ((1 + pow2 (- 53)) ^ (length xs + 1) - 1)
                * (sum_list (map abs xs) / of_nat (length xs))
              + ((1 + pow2 (- 53)) ^ (length xs + 1) + 1) * pow2 (- 1075)"
    using double_mean_error by blast
  have mean: "\<forall>ks. ks \<noteq> [] \<and> sum_list (map abs ks) < 2 ^ 53 \<longrightarrow>
          double_mean (map of_int ks)
            = round_double (of_int (sum_list ks) / of_nat (length ks))"
    using double_mean_ints by blast
  have example: "\<bar>lastModified st\<bar> \<le> 8640000000000000 \<longrightarrow>
        (\<exists>r. getPriceComparison st
                 (snapshot_of [priced_row ''x'' ''50'', priced_row ''y'' ''70'',
                               priced_row ''z'' ''90''] rrows polrows) ''z''
               = Inr (Some r)
             \<and> pc_base r = priced ''z'' ''90''
             \<and> pc_min r = Fin 50 \<and> pc_max r = Fin 90 \<and> pc_avg r = Fin 70
             \<and> pc_cheaper r = [priced ''x'' ''50'', priced ''y'' ''70''])"
  proof
    assume valid: "\<bar>lastModified st\<bar> \<le> 8640000000000000"
    let ?e = "snapshot_of [priced_row ''x'' ''50'', priced_row ''y'' ''70'',
                           priced_row ''z'' ''90''] rrows polrows"
    have ps: "products ?e = [priced ''x'' ''50'', priced ''y'' ''70'', priced ''z'' ''90'']"
      by (simp add: snapshot_products priced_def)
    have res: "productById ?e ''z'' = Some (priced ''z'' ''90'')"
      by (simp add: snapshot_of_def build_cache_def index_products_def priced_def [symmetric]
          priced_fields)
    have cat: "category_products ?e (priced ''z'' ''90'')
                 = [priced ''x'' ''50'', priced ''y'' ''70'', priced ''z'' ''90'']"
      by (simp add: category_products_def ps priced_fields)
    have t: "toFixed2 (Fin 50) = Fin 50 \<and> toFixed2 (Fin 90) = Fin 90
             \<and> toFixed2 (Fin 70) = Fin 70"
      using toFixed2_of_int [of 50] toFixed2_of_int [of 90] toFixed2_of_int [of 70] by simp
    have "getPriceComparison st ?e ''z'' =
            Inr (Some \<lparr>pc_base = priced ''z'' ''90'', pc_min = Fin 50, pc_max = Fin 90,
                       pc_avg = Fin 70,
                       pc_cheaper = [priced ''x'' ''50'', priced ''y'' ''70''],
                       pc_updated_at = (if 0 \<le> lastModified st then \<lfloor>lastModified st\<rfloor>
                                        else \<lceil>lastModified st\<rceil>)\<rparr>)"
      unfolding getPriceComparison_found [OF res valid] cat
      by (simp add: priced_fields Number_str_small_ints js_min_list_def js_max_list_def
          js_of_nat_def t round_double_numeral round_double_neg_numeral js_sort_def
          price_asc_def js_sub_def js_gt_def)
    then show "\<exists>r. getPriceComparison st ?e ''z'' = Inr (Some r)
             \<and> pc_base r = priced ''z'' ''90''
             \<and> pc_min r = Fin 50 \<and> pc_max r = Fin 90 \<and> pc_avg r = Fin 70
             \<and> pc_cheaper r = [priced ''x'' ''50'', priced ''y'' ''70'']"
      by simp
  qed
  show ?thesis
    by (intro conjI, fact none, fact found, fact stable, fact invalid, fact rounding,
        fact accuracy, fact mean, fact example)
qed

lemma price_19_99:
  "Number_str ''19.99'' = Fin (5626684784446013 / 281474976710656)"
  "toFixed2 (Fin (5626684784446013 / 281474976710656))
     = Fin (5626684784446013 / 281474976710656)"
  "double_mean [5626684784446013 / 281474976710656, 20]
     = Fin (2814046079664783 / 140737488355328)"
  "toFixed2 (Fin (2814046079664783 / 140737488355328))
     = Fin (5626684784446013 / 281474976710656)"
  by code_simp+

theorem price_comparison_witness:
  "\<bar>lastModified example_store\<bar> \<le> 8640000000000000
   \<and> productById (snapshot_of [priced_row ''a'' ''19.99'', priced_row ''b'' ''20''] [] []) ''b''
       = Some (priced ''b'' ''20'')
   \<and> category_prices (snapshot_of [priced_row ''a'' ''19.99'', priced_row ''b'' ''20''] [] [])
        (priced ''b'' ''20'') = [5626684784446013 / 281474976710656, 20]
   \<and> getPriceComparison example_store
        (snapshot_of [priced_row ''a'' ''19.99'', priced_row ''b'' ''20''] [] []) ''q'' = Inr None
   \<and> (\<exists>r. getPriceComparison example_store
              (snapshot_of [priced_row ''a'' ''19.99'', priced_row ''b'' ''20''] [] []) ''b''
            = Inr (Some r)
          \<and> pc_min r = Fin (5626684784446013 / 281474976710656)
          \<and> pc_max r = Fin 20
          \<and> pc_avg r = Fin (5626684784446013 / 281474976710656)
          \<and> pc_cheaper r = [priced ''a'' ''19.99''])"
proof -
  let ?c = "snapshot_of [priced_row ''a'' ''19.99'', priced_row ''b'' ''20''] [] []"
  let ?b = "priced ''b'' ''20''"
  have valid: "\<bar>lastModified example_store\<bar> \<le> 8640000000000000"
    by (simp add: example_store_def)
  have ps: "products ?c = [priced ''a'' ''19.99'', ?b]"
    by (simp add: snapshot_products priced_def)
  have res: "productById ?c ''b'' = Some ?b"
    by (simp add: snapshot_of_def build_cache_def index_products_def priced_def [symmetric]
        priced_fields)
  have nores: "productById ?c ''q'' = None"
    by (simp add: snapshot_of_def build_cache_def index_products_def priced_def [symmetric]
        priced_fields)
  have cat: "category_products ?c ?b = [priced ''a'' ''19.99'', ?b]"
    by (simp add: category_products_def ps priced_fields)
  have xs: "category_prices ?c ?b = [5626684784446013 / 281474976710656, 20]"
    by (simp add: category_prices_def cat priced_fields price_19_99(1) Number_str_small_ints)
  have fin: "list_all (\<lambda>p. is_finite_num (p_price p)) (category_products ?c ?b)"
    by (simp add: cat priced_fields price_19_99(1) Number_str_small_ints)
  have ch: "cheaper_products ?c ?b = [priced ''a'' ''19.99'']"
    by (simp add: cheaper_products_def ps priced_fields price_19_99(1) Number_str_small_ints)
  have t20: "toFixed2 (Fin 20) = Fin 20"
    using toFixed2_of_int [of 20] by simp
  note all = price_comparison [of "[priced_row ''a'' ''19.99'', priced_row ''b'' ''20'']"
      "[]" "[]" _ example_store]
  have a: "getPriceComparison example_store ?c ''q'' = Inr None"
    using all [of "''q''", THEN conjunct1] nores by simp
  obtain r where r: "getPriceComparison example_store ?c ''b'' = Inr (Some r)"
    and cheap: "pc_cheaper r = take 5 (sort_key (\<lambda>p. js_rank (p_price p)) (cheaper_products ?c ?b))"
    and stats: "list_all (\<lambda>p. is_finite_num (p_price p)) (category_products ?c ?b) \<longrightarrow>
                   pc_min r = toFixed2 (Fin (Min (set (category_prices ?c ?b))))
                   \<and> pc_max r = toFixed2 (Fin (Max (set (category_prices ?c ?b))))
                   \<and> pc_avg r = toFixed2 (double_mean (category_prices ?c ?b))"
    using all [of "''b''", THEN conjunct2, THEN conjunct1, THEN mp, OF valid, THEN spec,
        THEN mp, OF res]
    by blast
  have mn: "pc_min r = Fin (5626684784446013 / 281474976710656)"
    and mx: "pc_max r = Fin 20"
    and av: "pc_avg r = Fin (5626684784446013 / 281474976710656)"
    using stats [THEN mp, OF fin] unfolding xs
    by (simp_all add: price_19_99 t20)
  have c5: "pc_cheaper r = [priced ''a'' ''19.99'']"
    using cheap unfolding ch by simp
  have b: "\<exists>r. getPriceComparison example_store ?c ''b'' = Inr (Some r)
          \<and> pc_min r = Fin (5626684784446013 / 281474976710656)
          \<and> pc_max r = Fin 20
          \<and> pc_avg r = Fin (5626684784446013 / 281474976710656)
          \<and> pc_cheaper r = [priced ''a'' ''19.99'']"
    by (intro exI [of _ r] conjI, fact r, fact mn, fact mx, fact av, fact c5)
  show ?thesis
    by (intro conjI, fact valid, fact res, fact xs, fact a, fact b)
qed

end
